theory Spec2Isabelle
  imports Main "HOL-Library.Word" "HOL-Library.AList"
begin

unbundle bit_operations_syntax

section \<open>Values, errors and the conversions of the host library\<close>

text \<open>
  A 64-bit float is its bit pattern. The program never computes with floats: it only
  parses them, prints them, compares them with \<open>==\<close> and asks \<open>isnan\<close>. Both
  tests are exact functions of the bit pattern (IEEE 754 binary64): a NaN has all
  exponent bits set and a non-zero fraction; \<open>==\<close> is false as soon as one side is a
  NaN, identifies the two zeros, and is equality of bit patterns otherwise.
\<close>

type_synonym f64 = "64 word"

definition isnan :: "f64 \<Rightarrow> bool" where
  "isnan w \<longleftrightarrow>
     w AND 0x7FF0000000000000 = 0x7FF0000000000000 \<and> w AND 0x000FFFFFFFFFFFFF \<noteq> 0"

definition is_zero :: "f64 \<Rightarrow> bool" where
  "is_zero w \<longleftrightarrow> w AND 0x7FFFFFFFFFFFFFFF = 0"

definition float_eq :: "f64 \<Rightarrow> f64 \<Rightarrow> bool" where
  "float_eq a b \<longleftrightarrow> \<not> isnan a \<and> \<not> isnan b \<and> (a = b \<or> (is_zero a \<and> is_zero b))"

text \<open>A cell holds a float (\<open>np.float64\<close>) or a text (\<open>str\<close>).\<close>

datatype val = Num f64 | Str string

text \<open>
  The exceptions of the program. \<open>ValueError\<close> carries where it comes from:
  the two \<open>raise ValueError("header size != ...")\<close> of \<open>_get_header\<close>,
  \<open>np.float64\<close> on a text that is no float, \<open>int\<close> on a text that is no integer,
  and the unpacking \<open>for (fix, v) in coo\<close> of an entry that is no pair.
  \<open>CsvError\<close> is the \<open>_csv.Error\<close> of the csv reader.
\<close>

datatype vmsg = HeaderNumbersSize | HeaderDefaultsSize | NotAFloat | NotAnInt | Unpack

datatype error =
  IndexError | ValueError vmsg | TypeError | StopIteration | AttributeError | CsvError

definition ebind :: "error + 'a \<Rightarrow> ('a \<Rightarrow> error + 'b) \<Rightarrow> error + 'b" where
  "ebind m f = (case m of Inl e \<Rightarrow> Inl e | Inr x \<Rightarrow> f x)"

fun mapM :: "('a \<Rightarrow> error + 'b) \<Rightarrow> 'a list \<Rightarrow> error + 'b list" where
  "mapM f [] = Inr []"
| "mapM f (x # xs) = ebind (f x) (\<lambda>y. ebind (mapM f xs) (\<lambda>ys. Inr (y # ys)))"

text \<open>
  The text conversions belong to Python and numpy, not to the program, so they are
  parameters of the model: \<open>float_of_str\<close> is \<open>np.float64\<close> on a \<open>str\<close>
  (\<open>None\<close> where it raises \<open>ValueError\<close>), \<open>str_of_float\<close> is \<open>str\<close> on an
  \<open>np.float64\<close>, \<open>int_of_str\<close> is \<open>int\<close> on a \<open>str\<close>, \<open>str_of_int\<close> is
  \<open>str\<close> on an \<open>int\<close>.
\<close>

record pylib =
  float_of_str :: "string \<Rightarrow> f64 option"
  str_of_float :: "f64 \<Rightarrow> string"
  int_of_str :: "string \<Rightarrow> int option"
  str_of_int :: "int \<Rightarrow> string"

text \<open>\<open>np.float64(v)\<close>.\<close>

fun np_float64 :: "pylib \<Rightarrow> val \<Rightarrow> error + f64" where
  "np_float64 L (Num f) = Inr f"
| "np_float64 L (Str s) =
     (case float_of_str L s of None \<Rightarrow> Inl (ValueError NotAFloat) | Some f \<Rightarrow> Inr f)"

text \<open>\<open>np.isnan(v)\<close>: a \<open>TypeError\<close> on a text.\<close>

fun np_isnan :: "val \<Rightarrow> error + bool" where
  "np_isnan (Num f) = Inr (isnan f)"
| "np_isnan (Str s) = Inl TypeError"

text \<open>Python's \<open>a == b\<close> on cells: a float never equals a text.\<close>

fun py_eq :: "val \<Rightarrow> val \<Rightarrow> bool" where
  "py_eq (Num a) (Num b) = float_eq a b"
| "py_eq (Str a) (Str b) = (a = b)"
| "py_eq (Num a) (Str b) = False"
| "py_eq (Str a) (Num b) = False"

text \<open>\<open>str(v)\<close>, as \<open>format\<close> and the csv writer apply it to a cell.\<close>

fun py_str :: "pylib \<Rightarrow> val \<Rightarrow> string" where
  "py_str L (Num f) = str_of_float L f"
| "py_str L (Str s) = s"

text \<open>An index as a caller passes it: an \<open>int\<close>, or a text still to be parsed.\<close>

datatype ix = IxInt int | IxStr string

text \<open>\<open>int(fix)\<close>.\<close>

fun py_int :: "pylib \<Rightarrow> ix \<Rightarrow> error + int" where
  "py_int L (IxInt i) = Inr i"
| "py_int L (IxStr s) =
     (case int_of_str L s of None \<Rightarrow> Inl (ValueError NotAnInt) | Some i \<Rightarrow> Inr i)"

text \<open>
  \<open>xs[i]\<close> on a Python list: a negative index counts from the end, anything outside
  \<open>[-len, len)\<close> raises \<open>IndexError\<close>.
\<close>

definition py_nth :: "'a list \<Rightarrow> int \<Rightarrow> error + 'a" where
  "py_nth xs i =
     (if 0 \<le> i \<and> i < int (length xs) then Inr (xs ! nat i)
      else if i < 0 \<and> - int (length xs) \<le> i then Inr (xs ! nat (int (length xs) + i))
      else Inl IndexError)"

section \<open>The schema: \<open>_is_num\<close> and \<open>_get_header\<close>\<close>

text \<open>\<open>_is_num\<close> catches \<open>ValueError\<close> only.\<close>

definition u_is_num :: "pylib \<Rightarrow> val \<Rightarrow> error + bool" where
  "u_is_num L v =
     (case np_float64 L v of
        Inr f \<Rightarrow> Inr True
      | Inl (ValueError m) \<Rightarrow> Inr False
      | Inl e \<Rightarrow> Inl e)"

text \<open>
  The comprehension \<open>[np.float64(d) if numbers[fix] else d for (fix, d) in
  enumerate(defaults)]\<close>, one element: \<open>numbers[fix]\<close> is read first.
\<close>

definition coerce_default :: "pylib \<Rightarrow> bool list \<Rightarrow> nat \<times> val \<Rightarrow> error + val" where
  "coerce_default L numbers p =
     ebind (py_nth numbers (int (fst p))) (\<lambda>n.
       if n then ebind (np_float64 L (snd p)) (\<lambda>f. Inr (Num f)) else Inr (snd p))"

text \<open>
  \<open>_get_header(header, defaults, numbers, copy)\<close>. \<open>header\<close> and \<open>numbers\<close> may be
  \<open>None\<close>; \<open>list(None)\<close> and \<open>len(None)\<close> raise \<open>TypeError\<close>.
\<close>

definition u_get_header ::
  "pylib \<Rightarrow> string list option \<Rightarrow> val list \<Rightarrow> bool list option \<Rightarrow> bool
     \<Rightarrow> error + (string list \<times> val list \<times> bool list)" where
  "u_get_header L header defaults numbers copy =
     (if copy \<and> header = None then Inl TypeError
      else
        ebind (case numbers of None \<Rightarrow> mapM (u_is_num L) defaults | Some ns \<Rightarrow> Inr ns)
          (\<lambda>numbers'.
            case header of
              None \<Rightarrow> Inl TypeError
            | Some h \<Rightarrow>
                if length h \<noteq> length numbers' then Inl (ValueError HeaderNumbersSize)
                else
                  ebind (if copy then mapM (coerce_default L numbers') (enumerate 0 defaults)
                         else Inr defaults)
                    (\<lambda>defaults'.
                      if length h \<noteq> length defaults' then Inl (ValueError HeaderDefaultsSize)
                      else Inr (h, defaults', numbers'))))"

section \<open>\<open>SparseRow\<close>\<close>

text \<open>
  The dictionary \<open>_values\<close> is an association list in insertion order, which is the
  order \<open>items()\<close> gives: \<open>AList.update\<close> overwrites in place or appends,
  \<open>AList.delete\<close> removes, \<open>map_of\<close> looks up.
\<close>

record sparse_row =
  r_header :: "string list"
  r_defaults :: "val list"
  r_numbers :: "bool list"
  r_values :: "(int \<times> val) list"

definition u_check_range :: "sparse_row \<Rightarrow> int \<Rightarrow> error + unit" where
  "u_check_range r fix =
     (if fix < 0 \<or> fix \<ge> int (length (r_defaults r)) then Inl IndexError else Inr ())"

text \<open>
  \<open>_convert\<close>. In \<open>v == default or (np.isnan(v) and np.isnan(default))\<close> the right
  operands are evaluated only when needed.
\<close>

definition u_convert :: "pylib \<Rightarrow> sparse_row \<Rightarrow> int \<Rightarrow> val \<Rightarrow> error + (val \<times> bool)" where
  "u_convert L r fix v =
     ebind (py_nth (r_defaults r) fix) (\<lambda>default.
     ebind (py_nth (r_numbers r) fix) (\<lambda>num.
       if num then
         ebind (np_float64 L v) (\<lambda>f.
           if py_eq (Num f) default then Inr (Num f, True)
           else if isnan f then ebind (np_isnan default) (\<lambda>b. Inr (Num f, b))
           else Inr (Num f, False))
       else Inr (v, py_eq v default)))"

text \<open>The local function \<open>add\<close> of \<open>__init__\<close>.\<close>

definition add :: "pylib \<Rightarrow> sparse_row \<Rightarrow> ix \<Rightarrow> val \<Rightarrow> error + sparse_row" where
  "add L r fix v =
     ebind (py_int L fix) (\<lambda>i.
     ebind (u_check_range r i) (\<lambda>_.
     ebind (u_convert L r i v) (\<lambda>c.
       Inr (if \<not> snd c then r\<lparr>r_values := AList.update i (fst c) (r_values r)\<rparr> else r))))"

text \<open>
  \<open>for (fix, v) in coo: add(fix, v)\<close>. \<open>coo\<close> may be a generator, so producing an
  entry can itself raise, after the entries before it were added.
\<close>

fun add_all :: "pylib \<Rightarrow> sparse_row \<Rightarrow> (error + ix \<times> val) list \<Rightarrow> error + sparse_row" where
  "add_all L r [] = Inr r"
| "add_all L r (c # cs) =
     ebind c (\<lambda>p. ebind (add L r (fst p) (snd p)) (\<lambda>r'. add_all L r' cs))"

definition SparseRow_init ::
  "pylib \<Rightarrow> string list option \<Rightarrow> val list \<Rightarrow> bool list option \<Rightarrow> (error + ix \<times> val) list
     \<Rightarrow> bool \<Rightarrow> error + sparse_row" where
  "SparseRow_init L header defaults numbers coo copy =
     ebind (u_get_header L header defaults numbers copy) (\<lambda>s.
       add_all L \<lparr>r_header = fst s, r_defaults = fst (snd s), r_numbers = snd (snd s),
                  r_values = []\<rparr> coo)"

text \<open>\<open>_get\<close>: the stored value, or on \<open>KeyError\<close> the list access \<open>_defaults[fix]\<close>.\<close>

definition u_get :: "sparse_row \<Rightarrow> int \<Rightarrow> error + val" where
  "u_get r fix =
     (case map_of (r_values r) fix of Some v \<Rightarrow> Inr v | None \<Rightarrow> py_nth (r_defaults r) fix)"

definition getitem :: "pylib \<Rightarrow> sparse_row \<Rightarrow> ix \<Rightarrow> error + val" where
  "getitem L r fix = ebind (py_int L fix) (u_get r)"

text \<open>
  An operation that mutates the row returns its outcome and the row as it is left,
  also when it raises.
\<close>

definition setitem :: "pylib \<Rightarrow> sparse_row \<Rightarrow> ix \<Rightarrow> val \<Rightarrow> (error + unit) \<times> sparse_row" where
  "setitem L r fix v =
     (case py_int L fix of
        Inl e \<Rightarrow> (Inl e, r)
      | Inr i \<Rightarrow>
          (case u_check_range r i of
             Inl e \<Rightarrow> (Inl e, r)
           | Inr _ \<Rightarrow>
               (case u_convert L r i v of
                  Inl e \<Rightarrow> (Inl e, r)
                | Inr c \<Rightarrow>
                    if snd c then (Inr (), r\<lparr>r_values := AList.delete i (r_values r)\<rparr>)
                    else (Inr (), r\<lparr>r_values := AList.update i (fst c) (r_values r)\<rparr>))))"

definition delitem :: "pylib \<Rightarrow> sparse_row \<Rightarrow> ix \<Rightarrow> (error + unit) \<times> sparse_row" where
  "delitem L r fix =
     (case py_int L fix of
        Inl e \<Rightarrow> (Inl e, r)
      | Inr i \<Rightarrow>
          (case u_check_range r i of
             Inl e \<Rightarrow> (Inl e, r)
           | Inr _ \<Rightarrow> (Inr (), r\<lparr>r_values := AList.delete i (r_values r)\<rparr>)))"

definition clear :: "sparse_row \<Rightarrow> sparse_row" where
  "clear r = r\<lparr>r_values := []\<rparr>"

definition get_values :: "sparse_row \<Rightarrow> (int \<times> val) list" where
  "get_values r = r_values r"

definition get_name :: "sparse_row \<Rightarrow> int \<Rightarrow> error + string" where
  "get_name r fix = py_nth (r_header r) fix"

definition is_num :: "sparse_row \<Rightarrow> int \<Rightarrow> error + bool" where
  "is_num r fix = py_nth (r_numbers r) fix"

text \<open>
  The loop of \<open>from_dense\<close> over \<open>enumerate(row)\<close>, with \<open>last_fix\<close>; it stops at the
  first exception and leaves what it stored.
\<close>

fun from_dense_loop ::
  "pylib \<Rightarrow> sparse_row \<Rightarrow> (nat \<times> val) list \<Rightarrow> int \<Rightarrow> (error + int) \<times> sparse_row" where
  "from_dense_loop L r [] last_fix = (Inr last_fix, r)"
| "from_dense_loop L r (p # ps) last_fix =
     (case u_convert L r (int (fst p)) (snd p) of
        Inl e \<Rightarrow> (Inl e, r)
      | Inr c \<Rightarrow>
          from_dense_loop L
            (if \<not> snd c then r\<lparr>r_values := AList.update (int (fst p)) (fst c) (r_values r)\<rparr>
             else r)
            ps (int (fst p)))"

definition from_dense :: "pylib \<Rightarrow> sparse_row \<Rightarrow> val list \<Rightarrow> (error + unit) \<times> sparse_row" where
  "from_dense L r row =
     (case from_dense_loop L (r\<lparr>r_values := []\<rparr>) (enumerate 0 row) 0 of
        (Inl e, r') \<Rightarrow> (Inl e, r')
      | (Inr last_fix, r') \<Rightarrow> (u_check_range r' last_fix, r'))"

text \<open>
  \<open>__iter__\<close>, run to its end: \<open>_get(ix)\<close> for \<open>ix\<close> from 0 while
  \<open>ix < len(_defaults)\<close>.
\<close>

definition row_iter :: "sparse_row \<Rightarrow> error + val list" where
  "row_iter r = mapM (u_get r) (map int [0..<length (r_defaults r)])"

section \<open>The line transport and \<open>BaseFile\<close>\<close>

text \<open>
  \<open>BaseFile\<close> puts a csv writer or reader over a file it opens in text mode, plain or
  gzip, and without \<open>newline=''\<close>. A file is the sequence of the records a csv writer
  wrote, each record the sequence of its fields as the writer received them, and a flag
  for \<open>closed\<close>. A file opened for writing starts empty; a file opened for reading holds
  the records still to be read.

  The writer quotes what needs quoting and loses nothing (on a system whose line
  separator is the line feed, where text mode writes every character as it is). Reading
  is not the inverse: text mode translates every carriage return followed by a line
  feed, and every other carriage return, to one line feed before the csv reader sees
  them, also inside a quoted field, and the reader raises \<open>_csv.Error\<close> on a field of
  more than 131072 characters.
\<close>

record basefile =
  f_lines :: "string list list"
  f_closed :: bool

definition BaseFile_init_write :: basefile where
  "BaseFile_init_write = \<lparr>f_lines = [], f_closed = False\<rparr>"

definition BaseFile_init_read :: "string list list \<Rightarrow> basefile" where
  "BaseFile_init_read content = \<lparr>f_lines = content, f_closed = False\<rparr>"

definition close :: "basefile \<Rightarrow> basefile" where
  "close f = f\<lparr>f_closed := True\<rparr>"

definition csv_writerow :: "basefile \<Rightarrow> string list \<Rightarrow> basefile" where
  "csv_writerow f row = f\<lparr>f_lines := f_lines f @ [row]\<rparr>"

text \<open>The newline translation of a text-mode file on reading.\<close>

fun universal_newlines :: "string \<Rightarrow> string" where
  "universal_newlines [] = []"
| "universal_newlines [c] = (if c = CHR 0x0D then [CHR 0x0A] else [c])"
| "universal_newlines (c # d # cs) =
     (if c = CHR 0x0D
      then (if d = CHR 0x0A then CHR 0x0A # universal_newlines cs
            else CHR 0x0A # universal_newlines (d # cs))
      else c # universal_newlines (d # cs))"

definition field_limit :: nat where
  "field_limit = 131072"

definition within_field_limit :: "string list \<Rightarrow> bool" where
  "within_field_limit l = list_all (\<lambda>s. length (universal_newlines s) \<le> field_limit) l"

text \<open>
  \<open>next(self._csv)\<close>: the outcome and the file as it is left. At the end of the file
  it raises \<open>StopIteration\<close>; otherwise the record is consumed, and its fields are
  returned as text mode hands them on, or \<open>_csv.Error\<close> is raised when one of them
  exceeds the field limit. The file left after \<open>_csv.Error\<close> is given with the whole
  record consumed; when the record spans several lines of the file, the reader stops
  at the line where the limit is passed.
\<close>

definition csv_next :: "basefile \<Rightarrow> (error + string list) \<times> basefile" where
  "csv_next f =
     (case f_lines f of
        [] \<Rightarrow> (Inl StopIteration, f)
      | l # ls \<Rightarrow>
          (if within_field_limit l then Inr (map universal_newlines l) else Inl CsvError,
           f\<lparr>f_lines := ls\<rparr>))"

section \<open>\<open>SparseWriter\<close>\<close>

record sparse_writer =
  w_header :: "string list"
  w_defaults :: "val list"
  w_numbers :: "bool list"
  w_file :: basefile

text \<open>
  \<open>__init__\<close>: on any exception the file is closed and the exception raised again;
  the result is then the exception and the file as it is left.
\<close>

definition SparseWriter_init ::
  "pylib \<Rightarrow> string list option \<Rightarrow> val list \<Rightarrow> bool list option \<Rightarrow> bool
     \<Rightarrow> error \<times> basefile + sparse_writer" where
  "SparseWriter_init L header defaults numbers copy =
     (case u_get_header L header defaults numbers copy of
        Inl e \<Rightarrow> Inl (e, close BaseFile_init_write)
      | Inr s \<Rightarrow>
          Inr \<lparr>w_header = fst s, w_defaults = fst (snd s), w_numbers = snd (snd s),
               w_file = csv_writerow (csv_writerow BaseFile_init_write (fst s))
                          (map (py_str L) (fst (snd s)))\<rparr>)"

definition get_empty_row :: "pylib \<Rightarrow> sparse_writer \<Rightarrow> error + sparse_row" where
  "get_empty_row L w =
     SparseRow_init L (Some (w_header w)) (w_defaults w) (Some (w_numbers w)) [] False"

text \<open>After \<open>close\<close> the attribute \<open>_csv\<close> is \<open>None\<close>, and using it raises.\<close>

definition write_sparse_row ::
  "pylib \<Rightarrow> sparse_writer \<Rightarrow> (int \<times> val) list \<Rightarrow> error + sparse_writer" where
  "write_sparse_row L w sparse =
     (if f_closed (w_file w) then Inl AttributeError
      else Inr (w\<lparr>w_file := csv_writerow (w_file w)
                  (map (\<lambda>p. str_of_int L (fst p) @ '':'' @ py_str L (snd p)) sparse)\<rparr>))"

definition write_dense_row :: "pylib \<Rightarrow> sparse_writer \<Rightarrow> val list \<Rightarrow> error + sparse_writer" where
  "write_dense_row L w vs =
     ebind (get_empty_row L w) (\<lambda>row.
       case from_dense L row vs of
         (Inl e, row') \<Rightarrow> Inl e
       | (Inr u, row') \<Rightarrow> write_sparse_row L w (get_values row'))"

text \<open>Writing a sequence of dense rows, one call after the other.\<close>

fun write_dense_rows :: "pylib \<Rightarrow> sparse_writer \<Rightarrow> val list list \<Rightarrow> error + sparse_writer" where
  "write_dense_rows L w [] = Inr w"
| "write_dense_rows L w (vs # rest) =
     ebind (write_dense_row L w vs) (\<lambda>w'. write_dense_rows L w' rest)"

section \<open>\<open>SparseLoader\<close>\<close>

record sparse_loader =
  l_header :: "string list"
  l_defaults :: "val list"
  l_numbers :: "bool list"
  l_file :: basefile

text \<open>
  \<open>__init__\<close>. With \<open>header is None\<close> the first line is read into the attribute
  \<open>self._header\<close> (\<open>hline\<close> below, not used again); the variable \<open>header\<close> that
  \<open>_get_header\<close> receives is left as it was. With \<open>defaults is None\<close> the next line
  becomes \<open>defaults\<close>. On any exception the file is closed and the exception raised
  again.
\<close>

definition SparseLoader_init ::
  "pylib \<Rightarrow> string list list \<Rightarrow> string list option \<Rightarrow> val list option \<Rightarrow> bool list option
     \<Rightarrow> bool \<Rightarrow> error \<times> basefile + sparse_loader" where
  "SparseLoader_init L content header defaults numbers copy =
     (case (if header = None then csv_next (BaseFile_init_read content)
            else (Inr [], BaseFile_init_read content)) of
        (Inl e, f1) \<Rightarrow> Inl (e, close f1)
      | (Inr hline, f1) \<Rightarrow>
          (case (case defaults of
                   None \<Rightarrow> (case csv_next f1 of
                               (Inl e, f2) \<Rightarrow> (Inl e, f2)
                             | (Inr dline, f2) \<Rightarrow> (Inr (map Str dline), f2))
                 | Some d \<Rightarrow> (Inr d, f1)) of
             (Inl e, f2) \<Rightarrow> Inl (e, close f2)
           | (Inr d, f2) \<Rightarrow>
               (case u_get_header L header d numbers copy of
                  Inl e \<Rightarrow> Inl (e, close f2)
                | Inr s \<Rightarrow>
                    Inr \<lparr>l_header = fst s, l_defaults = fst (snd s), l_numbers = snd (snd s),
                         l_file = f2\<rparr>)))"

text \<open>
  \<open>e.split(':', 1)\<close> followed by the unpacking \<open>(fix, v)\<close>: a field with no colon
  gives a one-element list, which does not unpack.
\<close>

definition split_entry :: "string \<Rightarrow> error + ix \<times> val" where
  "split_entry e =
     (if CHR '':'' \<in> set e
      then Inr (IxStr (takeWhile (\<lambda>c. c \<noteq> CHR '':'') e),
                Str (tl (dropWhile (\<lambda>c. c \<noteq> CHR '':'') e)))
      else Inl (ValueError Unpack))"

text \<open>
  \<open>__next__\<close>: the line is taken from the reader before the row is built, so it is
  consumed also when building the row raises. On a closed loader \<open>next(None)\<close> is a
  \<open>TypeError\<close>.
\<close>

definition SparseLoader_next ::
  "pylib \<Rightarrow> sparse_loader \<Rightarrow> (error + sparse_row) \<times> sparse_loader" where
  "SparseLoader_next L l =
     (if f_closed (l_file l) then (Inl TypeError, l)
      else
        (case csv_next (l_file l) of
           (Inl e, f) \<Rightarrow> (Inl e, l\<lparr>l_file := f\<rparr>)
         | (Inr line, f) \<Rightarrow>
             (SparseRow_init L (Some (l_header l)) (l_defaults l) (Some (l_numbers l))
                (map split_entry line) False,
              l\<lparr>l_file := f\<rparr>)))"

text \<open>
  Iterating the loader to its end, as \<open>list(loader)\<close> does: \<open>StopIteration\<close> ends the
  sequence, any other exception is raised.
\<close>

function load_rows :: "pylib \<Rightarrow> sparse_loader \<Rightarrow> error + sparse_row list" where
  "load_rows L l =
     (case SparseLoader_next L l of
        (Inl e, l') \<Rightarrow> if e = StopIteration then Inr [] else Inl e
      | (Inr r, l') \<Rightarrow> ebind (load_rows L l') (\<lambda>rs. Inr (r # rs)))"
  by pat_completeness auto
termination
proof (relation "measure (\<lambda>(L, l). length (f_lines (l_file l)))")
  show "wf (measure (\<lambda>(L, l). length (f_lines (l_file l))))"
    by simp
next
  fix L l x1 l' r
  assume "(x1, l') = SparseLoader_next L l" and "x1 = Inr r"
  then show "((L, l'), (L, l)) \<in> measure (\<lambda>(L, l). length (f_lines (l_file l)))"
    by (auto simp: SparseLoader_next_def csv_next_def split: if_splits list.splits)
qed

declare load_rows.simps [simp del]

section \<open>An excerpt of the library conversions, for running examples\<close>

text \<open>
  The examples below run on a finite excerpt of the conversions: the floats
  \<open>0.0\<close>, \<open>-0.0\<close>, \<open>1.0\<close>, \<open>5.0\<close> and \<open>nan\<close> with their binary64 bit patterns and
  the integers 0, 1 and 2, each with the text Python prints for it.
\<close>

definition sample_lib :: pylib where
  "sample_lib =
     \<lparr>float_of_str = (\<lambda>s.
        if s = ''0.0'' then Some 0
        else if s = ''-0.0'' then Some 0x8000000000000000
        else if s = ''1.0'' then Some 0x3FF0000000000000
        else if s = ''5.0'' then Some 0x4014000000000000
        else if s = ''nan'' then Some 0x7FF8000000000000
        else None),
      str_of_float = (\<lambda>f.
        if f = 0 then ''0.0''
        else if f = 0x8000000000000000 then ''-0.0''
        else if f = 0x3FF0000000000000 then ''1.0''
        else if f = 0x4014000000000000 then ''5.0''
        else if f = 0x7FF8000000000000 then ''nan''
        else ''?''),
      int_of_str = (\<lambda>s.
        if s = ''0'' then Some 0
        else if s = ''1'' then Some 1
        else if s = ''2'' then Some 2
        else None),
      str_of_int = (\<lambda>i.
        if i = 0 then ''0''
        else if i = 1 then ''1''
        else if i = 2 then ''2''
        else ''?'')\<rparr>"

section \<open>The default-equality rule and the elision invariant\<close>

text \<open>
  The rule of the specification, in its words: in a numeric column a value equals the
  default if \<open>v == default\<close> or both are NaN; in any other column equality is the
  equality of the values (\<open>==\<close>, which on texts is identity).
\<close>

definition is_nan_val :: "val \<Rightarrow> bool" where
  "is_nan_val v = (case v of Num f \<Rightarrow> isnan f | Str s \<Rightarrow> False)"

definition default_equal :: "bool \<Rightarrow> val \<Rightarrow> val \<Rightarrow> bool" where
  "default_equal num v d =
     (if num then py_eq v d \<or> (is_nan_val v \<and> is_nan_val d) else py_eq v d)"

text \<open>
  The elision invariant: every stored entry belongs to a column and its value is not
  default-equal to that column's default.
\<close>

definition elided :: "sparse_row \<Rightarrow> bool" where
  "elided r =
     list_all (\<lambda>p. 0 \<le> fst p \<and> nat (fst p) < length (r_defaults r)
                  \<and> nat (fst p) < length (r_numbers r)
                  \<and> \<not> default_equal (r_numbers r ! nat (fst p)) (snd p)
                        (r_defaults r ! nat (fst p)))
       (r_values r)"

text \<open>
  A schema as the data model of the specification describes it: as many flags as
  defaults, the default of a numeric column a float, the default of any other column a
  text. \<open>_get_header\<close> with \<open>copy\<close> and inferred flags always returns such a schema.
\<close>

definition typed_schema :: "sparse_row \<Rightarrow> bool" where
  "typed_schema r =
     list_all2 (\<lambda>n d. case d of Num f \<Rightarrow> n | Str s \<Rightarrow> \<not> n) (r_numbers r) (r_defaults r)"

text \<open>A row over one numeric column \<open>a\<close> with default \<open>0.0\<close>, holding \<open>5.0\<close>.\<close>

definition sample_row :: sparse_row where
  "sample_row =
     \<lparr>r_header = [''a''], r_defaults = [Num 0], r_numbers = [True],
      r_values = [(0, Num 0x4014000000000000)]\<rparr>"

text \<open>
  Without \<open>copy\<close> the defaults are taken as they are given. The empty row that
  \<open>SparseRow(["a"], ["0.0"], copy=False)\<close> builds has a numeric column whose default
  is still the text \<open>"0.0"\<close>: its schema is not typed.
\<close>

definition untyped_row :: sparse_row where
  "untyped_row =
     \<lparr>r_header = [''a''], r_defaults = [Str ''0.0''], r_numbers = [True], r_values = []\<rparr>"

section \<open>Dense rows and what it means to reproduce them\<close>

text \<open>
  A dense row is \<open>parseable\<close> when every value of a numeric column is a float or a
  text that parses as one. \<open>dense_cell\<close> is the value a column makes of a dense cell.
  \<open>reproduces\<close> says that a sequence of values \<open>out\<close> gives a dense row back, column
  by column: in a numeric column equal to the cell's float by \<open>==\<close> or both NaN, in any
  other column the very same value.
\<close>

definition is_float :: "pylib \<Rightarrow> val \<Rightarrow> bool" where
  "is_float L v = (case np_float64 L v of Inr f \<Rightarrow> True | Inl e \<Rightarrow> False)"

definition parseable :: "pylib \<Rightarrow> sparse_row \<Rightarrow> val list \<Rightarrow> bool" where
  "parseable L r row = list_all (\<lambda>p. fst p \<longrightarrow> is_float L (snd p)) (zip (r_numbers r) row)"

definition dense_cell :: "pylib \<Rightarrow> bool \<Rightarrow> val \<Rightarrow> error + val" where
  "dense_cell L num v = (if num then ebind (np_float64 L v) (\<lambda>f. Inr (Num f)) else Inr v)"

definition cell_same :: "bool \<Rightarrow> val \<Rightarrow> val \<Rightarrow> bool" where
  "cell_same num a b = (if num then default_equal True a b else a = b)"

definition reproduces :: "pylib \<Rightarrow> bool list \<Rightarrow> val list \<Rightarrow> val list \<Rightarrow> bool" where
  "reproduces L numbers out vs \<longleftrightarrow>
     length out = length vs \<and>
     list_all (\<lambda>p. case dense_cell L (fst p) (snd (snd p)) of
                      Inr c \<Rightarrow> cell_same (fst p) (fst (snd p)) c
                    | Inl e \<Rightarrow> False)
       (zip numbers (zip out vs))"

definition sample_row2 :: sparse_row where
  "sample_row2 =
     \<lparr>r_header = [''a'', ''b''], r_defaults = [Num 0, Str ''x''], r_numbers = [True, False],
      r_values = []\<rparr>"

section \<open>Rows that survive the text of the file\<close>

text \<open>
  What the round trip needs of the library: printing a float and parsing the text gives
  the same float, bit for bit, and for a NaN some NaN (\<open>float_text_exact\<close>); printing a
  column index gives a text without a colon that \<open>int\<close> reads back (\<open>index_text_ok\<close>).
  A dense row is \<open>text_stable\<close> when its numeric values parse to such floats and its
  other values are texts.
\<close>

definition float_text_exact :: "pylib \<Rightarrow> f64 \<Rightarrow> bool" where
  "float_text_exact L f =
     (case float_of_str L (str_of_float L f) of
        Some g \<Rightarrow> if isnan f then isnan g else g = f
      | None \<Rightarrow> False)"

definition text_stable :: "pylib \<Rightarrow> sparse_row \<Rightarrow> val list \<Rightarrow> bool" where
  "text_stable L r row =
     list_all (\<lambda>p. if fst p
                    then (case np_float64 L (snd p) of
                            Inr f \<Rightarrow> float_text_exact L f | Inl e \<Rightarrow> False)
                    else (case snd p of Str s \<Rightarrow> True | Num f \<Rightarrow> False))
       (zip (r_numbers r) row)"

definition index_text_ok :: "pylib \<Rightarrow> nat \<Rightarrow> bool" where
  "index_text_ok L n =
     list_all (\<lambda>i. int_of_str L (str_of_int L (int i)) = Some (int i)
                  \<and> CHR '':'' \<notin> set (str_of_int L (int i)))
       [0..<n]"

text \<open>
  The empty row over a writer's schema (what \<open>get_empty_row\<close> builds), the line
  \<open>write_dense_row\<close> writes for a dense row, and a loader over the writer's schema
  that reads the given lines.
\<close>

definition writer_row :: "sparse_writer \<Rightarrow> sparse_row" where
  "writer_row w =
     \<lparr>r_header = w_header w, r_defaults = w_defaults w, r_numbers = w_numbers w,
      r_values = []\<rparr>"

definition loader_of :: "sparse_writer \<Rightarrow> string list list \<Rightarrow> sparse_loader" where
  "loader_of w content =
     \<lparr>l_header = w_header w, l_defaults = w_defaults w, l_numbers = w_numbers w,
      l_file = BaseFile_init_read content\<rparr>"

definition dense_line :: "pylib \<Rightarrow> sparse_row \<Rightarrow> val list \<Rightarrow> string list" where
  "dense_line L r vs =
     map (\<lambda>p. str_of_int L (fst p) @ '':'' @ py_str L (snd p))
       (get_values (snd (from_dense L r vs)))"

text \<open>
  A field passes the reader as it was written when it holds no carriage return and is
  within the field limit.
\<close>

definition transport_safe :: "string \<Rightarrow> bool" where
  "transport_safe s \<longleftrightarrow> CHR 0x0D \<notin> set s \<and> length s \<le> field_limit"

text \<open>
  What the loader gives back for a dense cell. \<open>parsed_back\<close>: a value that was written
  comes back, in a numeric column, as the float that parsing its printed text gives,
  which is bit for bit the float written, and for a NaN a NaN; in any other column it
  comes back as the same value. \<open>loaded_cell\<close>: a cell that is default-equal to the
  default of its column comes back as that default, any other cell as \<open>parsed_back\<close>
  says. \<open>loaded_row\<close> is \<open>loaded_cell\<close> in every column.
\<close>

definition parsed_back :: "pylib \<Rightarrow> bool \<Rightarrow> val \<Rightarrow> val \<Rightarrow> bool" where
  "parsed_back L num c out =
     (if num
      then dense_cell L True (Str (py_str L c)) = Inr out
           \<and> (if is_nan_val c then is_nan_val out else out = c)
      else out = c)"

definition loaded_cell :: "pylib \<Rightarrow> bool \<Rightarrow> val \<Rightarrow> val \<Rightarrow> val \<Rightarrow> bool" where
  "loaded_cell L num d v out =
     (case dense_cell L num v of
        Inr c \<Rightarrow> if default_equal num c d then out = d else parsed_back L num c out
      | Inl e \<Rightarrow> False)"

definition loaded_row :: "pylib \<Rightarrow> sparse_row \<Rightarrow> val list \<Rightarrow> val list \<Rightarrow> bool" where
  "loaded_row L r out vs \<longleftrightarrow>
     length out = length vs \<and>
     list_all (\<lambda>p. loaded_cell L (fst p) (fst (snd p)) (snd (snd (snd p))) (fst (snd (snd p))))
       (zip (r_numbers r) (zip (r_defaults r) (zip out vs)))"

text \<open>
  The writer \<open>SparseWriter(fn, ["a", "b"], ["0.0", "x"])\<close> after construction.
\<close>

definition sample_writer :: sparse_writer where
  "sample_writer =
     \<lparr>w_header = [''a'', ''b''], w_defaults = [Num 0, Str ''x''], w_numbers = [True, False],
      w_file = \<lparr>f_lines = [[''a'', ''b''], [''0.0'', ''x'']], f_closed = False\<rparr>\<rparr>"

section \<open>Basic facts\<close>

lemma ebind_Inl [simp]: "ebind (Inl e) f = Inl e"
  by (simp add: ebind_def)

lemma ebind_Inr [simp]: "ebind (Inr x) f = f x"
  by (simp add: ebind_def)

lemma ebind_eq_Inr: "ebind m f = Inr y \<longleftrightarrow> (\<exists>x. m = Inr x \<and> f x = Inr y)"
  by (cases m) simp_all

lemma py_nth_in_range: "0 \<le> i \<Longrightarrow> i < int (length xs) \<Longrightarrow> py_nth xs i = Inr (xs ! nat i)"
  by (simp add: py_nth_def)

lemma py_nth_above: "int (length xs) \<le> i \<Longrightarrow> py_nth xs i = Inl IndexError"
  by (simp add: py_nth_def)

lemma py_nth_nonneg_Inr:
  "0 \<le> i \<Longrightarrow> py_nth xs i = Inr x \<Longrightarrow> nat i < length xs \<and> x = xs ! nat i"
  by (auto simp: py_nth_def split: if_splits)

section \<open>The elision invariant\<close>

lemma u_convert_sound:
  assumes "u_convert L r i v = Inr c" "0 \<le> i"
  shows "nat i < length (r_defaults r) \<and> nat i < length (r_numbers r)
         \<and> snd c = default_equal (r_numbers r ! nat i) (fst c) (r_defaults r ! nat i)"
proof -
  from assms obtain d n where d: "py_nth (r_defaults r) i = Inr d"
    and n: "py_nth (r_numbers r) i = Inr n"
    by (auto simp: u_convert_def ebind_eq_Inr)
  from py_nth_nonneg_Inr [OF \<open>0 \<le> i\<close> d] py_nth_nonneg_Inr [OF \<open>0 \<le> i\<close> n]
  have rng: "nat i < length (r_defaults r)" "d = r_defaults r ! nat i"
    "nat i < length (r_numbers r)" "n = r_numbers r ! nat i"
    by simp_all
  have "snd c = default_equal n (fst c) d"
  proof (cases n)
    case True
    with assms d n obtain f where f: "np_float64 L v = Inr f"
      by (auto simp: u_convert_def ebind_eq_Inr)
    show ?thesis
      using assms(1) d n True f
      by (cases d)
        (auto simp: u_convert_def default_equal_def is_nan_val_def float_eq_def
              split: if_splits)
  next
    case False
    with assms d n show ?thesis
      by (auto simp: u_convert_def default_equal_def)
  qed
  with rng show ?thesis by simp
qed

lemma set_AList_update: "set (AList.update k v al) \<subseteq> insert (k, v) (set al)"
  by (induction al) auto

lemma elided_update:
  assumes "elided r" "u_convert L r i v = Inr (a, False)" "0 \<le> i"
  shows "elided (r\<lparr>r_values := AList.update i a (r_values r)\<rparr>)"
proof -
  from u_convert_sound [OF assms(2,3)]
  have ok: "nat i < length (r_defaults r)" "nat i < length (r_numbers r)"
    "\<not> default_equal (r_numbers r ! nat i) a (r_defaults r ! nat i)"
    by simp_all
  have "set (AList.update i a (r_values r)) \<subseteq> insert (i, a) (set (r_values r))"
    by (rule set_AList_update)
  with assms(1) ok \<open>0 \<le> i\<close> show ?thesis
    by (auto simp: elided_def list_all_iff)
qed

lemma elided_delete: "elided r \<Longrightarrow> elided (r\<lparr>r_values := AList.delete i (r_values r)\<rparr>)"
  by (auto simp: elided_def list_all_iff AList.delete_eq)

lemma elided_empty: "elided (r\<lparr>r_values := []\<rparr>)"
  by (simp add: elided_def)

lemma elided_setitem: "elided r \<Longrightarrow> elided (snd (setitem L r fix v))"
  by (auto simp: setitem_def u_check_range_def elided_delete elided_update
           split: sum.splits if_splits)

lemma elided_delitem: "elided r \<Longrightarrow> elided (snd (delitem L r fix))"
  by (auto simp: delitem_def elided_delete split: sum.splits)

lemma elided_add: "elided r \<Longrightarrow> add L r fix v = Inr r' \<Longrightarrow> elided r'"
  by (auto simp: add_def ebind_eq_Inr u_check_range_def elided_update split: if_splits)

lemma elided_add_all: "elided r \<Longrightarrow> add_all L r coo = Inr r' \<Longrightarrow> elided r'"
proof (induction coo arbitrary: r)
  case Nil
  then show ?case by simp
next
  case (Cons c cs)
  then show ?case
    by (auto simp: ebind_eq_Inr dest: elided_add)
qed

lemma elided_init: "SparseRow_init L header defaults numbers coo copy = Inr r \<Longrightarrow> elided r"
  by (auto simp: SparseRow_init_def ebind_eq_Inr elided_def dest!: elided_add_all [rotated])

lemma elided_loop: "elided r \<Longrightarrow> elided (snd (from_dense_loop L r ps last_fix))"
proof (induction ps arbitrary: r last_fix)
  case Nil
  then show ?case by simp
next
  case (Cons p ps)
  show ?case
  proof (cases "u_convert L r (int (fst p)) (snd p)")
    case (Inl e)
    with Cons.prems show ?thesis by simp
  next
    case (Inr c)
    with Cons.prems have "elided (if \<not> snd c
        then r\<lparr>r_values := AList.update (int (fst p)) (fst c) (r_values r)\<rparr> else r)"
      by (cases c) (auto intro: elided_update)
    from Cons.IH [OF this] Inr show ?thesis by simp
  qed
qed

lemma elided_from_dense: "elided (snd (from_dense L r row))"
proof -
  have "elided (snd (from_dense_loop L (r\<lparr>r_values := []\<rparr>) (enumerate 0 row) 0))"
    by (rule elided_loop) (rule elided_empty)
  then show ?thesis
    by (auto simp: from_dense_def split: prod.splits sum.splits)
qed

text \<open>
  Claim C4. The stored mapping of a row never holds an entry whose value is default-equal
  to its column's default: this holds for a row as \<open>__init__\<close> returns it, for the row
  \<open>from_dense\<close> leaves (also when it raises), it is kept by \<open>__setitem__\<close> and
  \<open>__delitem__\<close> (also when they raise), and it holds after \<open>clear\<close>.
\<close>

theorem elision_invariant:
  "(SparseRow_init L header defaults numbers coo copy = Inr r \<longrightarrow> elided r)
   \<and> elided (snd (from_dense L r0 row))
   \<and> (elided r1 \<longrightarrow> elided (snd (setitem L r1 fix v)) \<and> elided (snd (delitem L r1 fix)))
   \<and> elided (clear r1)"
  by (simp add: elided_init elided_from_dense elided_setitem elided_delitem clear_def
      elided_empty)

text \<open>
  Witness for C4: the row built from the entry \<open>(0, "5.0")\<close> over one numeric column
  with default \<open>0.0\<close> is the sample row, and the invariant holds of it and after a
  write and a delete.
\<close>

theorem elision_invariant_witness:
  "SparseRow_init sample_lib (Some [''a'']) [Str ''0.0''] None [Inr (IxInt 0, Str ''5.0'')] True
     = Inr sample_row
   \<and> elided sample_row
   \<and> elided (snd (setitem sample_lib sample_row (IxInt 0) (Str ''1.0'')))
   \<and> elided (snd (delitem sample_lib sample_row (IxInt 0)))"
proof -
  have init: "SparseRow_init sample_lib (Some [''a'']) [Str ''0.0''] None
      [Inr (IxInt 0, Str ''5.0'')] True = Inr sample_row"
    by (simp add: SparseRow_init_def u_get_header_def u_is_num_def coerce_default_def
        enumerate_eq_zip py_nth_def add_def u_check_range_def u_convert_def sample_lib_def
        float_eq_def isnan_def is_zero_def sample_row_def)
  from elision_invariant [of sample_lib "Some [''a'']" "[Str ''0.0'']" None
      "[Inr (IxInt 0, Str ''5.0'')]" True sample_row sample_row "[]" sample_row
      "IxInt 0" "Str ''1.0''"] init
  show ?thesis by simp
qed

section \<open>Failed writes\<close>

text \<open>
  Claim C10. When \<open>__setitem__\<close> or \<open>__delitem__\<close> raises, whatever the exception,
  the row is exactly what it was before the call: the conversion of the index, the range
  check and the conversion of the value all come before the mapping is touched.
\<close>

theorem failed_write_keeps_row:
  "(fst (setitem L r fix v) = Inl e \<longrightarrow> snd (setitem L r fix v) = r)
   \<and> (fst (delitem L r fix) = Inl e \<longrightarrow> snd (delitem L r fix) = r)"
  by (auto simp: setitem_def delitem_def split: sum.splits if_splits)

text \<open>
  Witness for C10: an index out of range, on a write and on a delete, raises
  \<open>IndexError\<close> and leaves the sample row as it was.
\<close>

theorem failed_write_keeps_row_witness:
  "fst (setitem sample_lib sample_row (IxInt 1) (Str ''1.0'')) = Inl IndexError
   \<and> snd (setitem sample_lib sample_row (IxInt 1) (Str ''1.0'')) = sample_row
   \<and> fst (delitem sample_lib sample_row (IxInt 1)) = Inl IndexError
   \<and> snd (delitem sample_lib sample_row (IxInt 1)) = sample_row"
proof -
  have h: "fst (setitem sample_lib sample_row (IxInt 1) (Str ''1.0'')) = Inl IndexError"
    "fst (delitem sample_lib sample_row (IxInt 1)) = Inl IndexError"
    by (simp_all add: setitem_def delitem_def u_check_range_def sample_row_def)
  from failed_write_keeps_row [of sample_lib sample_row "IxInt 1" "Str ''1.0''" IndexError] h
  show ?thesis by simp
qed

section \<open>Restoring the default\<close>

lemma typed_schemaD:
  assumes "typed_schema r" "nat i < length (r_defaults r)"
  shows "length (r_numbers r) = length (r_defaults r)"
    and "r_numbers r ! nat i \<Longrightarrow> \<exists>f. r_defaults r ! nat i = Num f"
    and "\<not> r_numbers r ! nat i \<Longrightarrow> \<exists>s. r_defaults r ! nat i = Str s"
proof -
  from assms(1) show len: "length (r_numbers r) = length (r_defaults r)"
    by (simp add: typed_schema_def list_all2_lengthD)
  from assms have "case r_defaults r ! nat i of Num f \<Rightarrow> r_numbers r ! nat i
      | Str s \<Rightarrow> \<not> r_numbers r ! nat i"
    by (simp add: typed_schema_def list_all2_conv_all_nth)
  then show "r_numbers r ! nat i \<Longrightarrow> \<exists>f. r_defaults r ! nat i = Num f"
    and "\<not> r_numbers r ! nat i \<Longrightarrow> \<exists>s. r_defaults r ! nat i = Str s"
    by (cases "r_defaults r ! nat i"; simp)+
qed

lemma u_convert_default:
  assumes "typed_schema r" "0 \<le> i" "i < int (length (r_defaults r))"
  shows "u_convert L r i (r_defaults r ! nat i) = Inr (r_defaults r ! nat i, True)"
proof -
  from assms have lt: "nat i < length (r_defaults r)" by simp
  note ty = typed_schemaD [OF assms(1) lt]
  have d: "py_nth (r_defaults r) i = Inr (r_defaults r ! nat i)"
    and n: "py_nth (r_numbers r) i = Inr (r_numbers r ! nat i)"
    using assms(2,3) ty(1) by (simp_all add: py_nth_in_range)
  show ?thesis
  proof (cases "r_numbers r ! nat i")
    case True
    with ty(2) obtain f where "r_defaults r ! nat i = Num f" by blast
    with True d n show ?thesis
      by (simp add: u_convert_def float_eq_def)
  next
    case False
    with ty(3) obtain s where "r_defaults r ! nat i = Str s" by blast
    with False d n show ?thesis
      by (simp add: u_convert_def)
  qed
qed

text \<open>
  Claim C9, as the code has it. Over a typed schema and for an index in range, writing
  the column's default succeeds and removes the entry of that column, reading the column
  then returns the default, and writing the default again leaves the row as it is.
\<close>

theorem set_default_restores:
  assumes "typed_schema r" "0 \<le> i" "i < int (length (r_defaults r))"
  shows "setitem L r (IxInt i) (r_defaults r ! nat i)
           = (Inr (), r\<lparr>r_values := AList.delete i (r_values r)\<rparr>)
         \<and> map_of (AList.delete i (r_values r)) i = None
         \<and> getitem L (r\<lparr>r_values := AList.delete i (r_values r)\<rparr>) (IxInt i)
             = Inr (r_defaults r ! nat i)
         \<and> setitem L (r\<lparr>r_values := AList.delete i (r_values r)\<rparr>) (IxInt i)
               (r_defaults r ! nat i)
             = (Inr (), r\<lparr>r_values := AList.delete i (r_values r)\<rparr>)"
proof -
  let ?r' = "r\<lparr>r_values := AList.delete i (r_values r)\<rparr>"
  have ty': "typed_schema ?r'"
    using assms(1) by (simp add: typed_schema_def)
  have s1: "setitem L r (IxInt i) (r_defaults r ! nat i) = (Inr (), ?r')"
    using assms u_convert_default [OF assms, of L]
    by (simp add: setitem_def u_check_range_def)
  have none: "map_of (AList.delete i (r_values r)) i = None"
    by (simp add: delete_conv')
  have g: "getitem L ?r' (IxInt i) = Inr (r_defaults r ! nat i)"
    using assms(2,3) none by (simp add: getitem_def u_get_def py_nth_in_range)
  have s2: "setitem L ?r' (IxInt i) (r_defaults r ! nat i) = (Inr (), ?r')"
    using assms(2,3) u_convert_default [OF ty', of i L]
    by (simp add: setitem_def u_check_range_def delete_idem)
  from s1 none g s2 show ?thesis by simp
qed

text \<open>
  Witness for C9: writing the default \<open>0.0\<close> into the sample row empties it, and
  doing so again changes nothing.
\<close>

theorem set_default_restores_witness:
  "typed_schema sample_row \<and> (0::int) \<le> 0 \<and> (0::int) < int (length (r_defaults sample_row))
   \<and> setitem sample_lib sample_row (IxInt 0) (Num 0) = (Inr (), sample_row\<lparr>r_values := []\<rparr>)
   \<and> getitem sample_lib (sample_row\<lparr>r_values := []\<rparr>) (IxInt 0) = Inr (Num 0)
   \<and> setitem sample_lib (sample_row\<lparr>r_values := []\<rparr>) (IxInt 0) (Num 0)
        = (Inr (), sample_row\<lparr>r_values := []\<rparr>)"
proof -
  have h: "typed_schema sample_row" "(0::int) \<le> 0" "(0::int) < int (length (r_defaults sample_row))"
    by (simp_all add: typed_schema_def sample_row_def)
  have d: "AList.delete 0 (r_values sample_row) = []" "r_defaults sample_row ! nat 0 = Num 0"
    by (simp_all add: sample_row_def AList.delete_eq)
  from set_default_restores [OF h, of sample_lib] h show ?thesis
    unfolding d by simp
qed

text \<open>
  Counterexample to C9 as stated. \<open>SparseRow(["a"], ["0.0"], copy=False)\<close> is the
  untyped row; index 0 is in range. Writing the default \<open>"0.0"\<close> of its column
  converts the text to the float \<open>0.0\<close>, which is not \<open>==\<close> to the text: instead of
  removing the entry, the write stores one, and reading the column returns the float
  \<open>0.0\<close> where the default is the text \<open>"0.0"\<close>.
\<close>

theorem set_default_stores_on_untyped_row:
  "SparseRow_init sample_lib (Some [''a'']) [Str ''0.0''] None [] False = Inr untyped_row
   \<and> r_defaults untyped_row ! 0 = Str ''0.0''
   \<and> setitem sample_lib untyped_row (IxInt 0) (Str ''0.0'')
       = (Inr (), untyped_row\<lparr>r_values := [(0, Num 0)]\<rparr>)
   \<and> getitem sample_lib (untyped_row\<lparr>r_values := [(0, Num 0)]\<rparr>) (IxInt 0) = Inr (Num 0)
   \<and> Num 0 \<noteq> Str ''0.0''"
  by (simp add: SparseRow_init_def u_get_header_def u_is_num_def untyped_row_def setitem_def
      getitem_def u_get_def u_check_range_def u_convert_def py_nth_def sample_lib_def
      isnan_def)

section \<open>Building the schema\<close>

lemma mapM_u_is_num: "\<exists>ns. mapM (u_is_num L) ds = Inr ns \<and> length ns = length ds"
proof (induction ds)
  case Nil
  then show ?case by simp
next
  case (Cons d ds)
  have "\<exists>b. u_is_num L d = Inr b"
    by (cases d) (auto simp: u_is_num_def split: option.splits)
  with Cons show ?case by auto
qed

lemma mapM_length: "mapM f xs = Inr ys \<Longrightarrow> length ys = length xs"
  by (induction xs arbitrary: ys) (auto simp: ebind_eq_Inr)

lemma u_get_header_Some:
  "u_get_header L (Some h) defaults numbers copy =
     ebind (case numbers of None \<Rightarrow> mapM (u_is_num L) defaults | Some ns \<Rightarrow> Inr ns)
       (\<lambda>n. if length h \<noteq> length n then Inl (ValueError HeaderNumbersSize)
            else ebind (if copy then mapM (coerce_default L n) (enumerate 0 defaults)
                        else Inr defaults)
              (\<lambda>d. if length h \<noteq> length d then Inl (ValueError HeaderDefaultsSize)
                   else Inr (h, d, n)))"
  by (simp add: u_get_header_def)

lemma u_get_header_None: "u_get_header L None defaults numbers copy \<noteq> Inr s"
  by (cases "case numbers of None \<Rightarrow> mapM (u_is_num L) defaults | Some ns \<Rightarrow> Inr ns")
    (simp_all add: u_get_header_def)

lemma u_get_header_lengths:
  assumes "u_get_header L header defaults numbers copy = Inr (h, d, n)"
  shows "header = Some h \<and> length h = length defaults \<and> length d = length defaults
         \<and> length n = length defaults \<and> (\<forall>ns. numbers = Some ns \<longrightarrow> n = ns)"
proof -
  from assms obtain h0 where h0: "header = Some h0"
    using u_get_header_None by (cases header) auto
  from assms [unfolded h0 u_get_header_Some ebind_eq_Inr]
  obtain n' where n': "(case numbers of None \<Rightarrow> mapM (u_is_num L) defaults | Some ns \<Rightarrow> Inr ns) = Inr n'"
    and rest: "(if length h0 \<noteq> length n' then Inl (ValueError HeaderNumbersSize)
            else ebind (if copy then mapM (coerce_default L n') (enumerate 0 defaults)
                        else Inr defaults)
              (\<lambda>d. if length h0 \<noteq> length d then Inl (ValueError HeaderDefaultsSize)
                   else Inr (h0, d, n'))) = Inr (h, d, n)"
    by blast
  from rest have len1: "length h0 = length n'"
    by (simp split: if_splits)
  with rest obtain d' where d': "(if copy then mapM (coerce_default L n') (enumerate 0 defaults)
                        else Inr defaults) = Inr d'"
    and fin: "(if length h0 \<noteq> length d' then Inl (ValueError HeaderDefaultsSize)
                   else Inr (h0, d', n')) = Inr (h, d, n)"
    by (auto simp: ebind_eq_Inr)
  from fin have eqs: "length h0 = length d'" "h = h0" "d = d'" "n = n'"
    by (simp_all split: if_splits)
  from d' have "length d' = length defaults"
    by (cases copy) (auto dest: mapM_length)
  with h0 eqs len1 n' show ?thesis
    by (cases numbers) auto
qed

text \<open>
  Without \<open>copy\<close>, or with inferred flags, every disagreement of the lengths raises
  one of the two \<open>ValueError("header size != ...")\<close>.
\<close>

lemma u_get_header_mismatch:
  assumes mis: "length h \<noteq> length defaults
                \<or> (\<exists>ns. numbers = Some ns \<and> length ns \<noteq> length defaults)"
    and mode: "\<not> copy \<or> numbers = None"
  shows "u_get_header L (Some h) defaults numbers copy = Inl (ValueError HeaderNumbersSize)
         \<or> u_get_header L (Some h) defaults numbers copy = Inl (ValueError HeaderDefaultsSize)"
proof (cases numbers)
  case None
  obtain ns where ns: "mapM (u_is_num L) defaults = Inr ns" "length ns = length defaults"
    using mapM_u_is_num by blast
  with None mis show ?thesis
    by (simp add: u_get_header_Some)
next
  case (Some ns)
  with mode have "\<not> copy" by simp
  with Some mis show ?thesis
    by (auto simp: u_get_header_Some)
qed

lemma writer_failure_closes:
  "SparseWriter_init L header defaults numbers copy = Inl (e, f) \<Longrightarrow> f_closed f"
  by (auto simp: SparseWriter_init_def close_def split: sum.splits)

lemma loader_failure_closes:
  "SparseLoader_init L content header defaults numbers copy = Inl (e, f) \<Longrightarrow> f_closed f"
  by (auto simp: SparseLoader_init_def close_def
           split: sum.splits if_splits option.splits prod.splits)

text \<open>
  Claim C8 (the code differs). With \<open>copy\<close> and explicit flags, a defaults sequence
  longer than names and flags makes the coercion read \<open>numbers[fix]\<close> out of range:
  \<open>_get_header\<close> raises \<open>IndexError\<close> before it reaches its own check of the
  defaults' size. \<open>SparseWriter\<close> closes the file and raises the same exception.
\<close>

theorem longer_defaults_raise_IndexError:
  "u_get_header sample_lib (Some [''a'']) [Str ''x'', Str ''y''] (Some [False]) True
     = Inl IndexError
   \<and> SparseWriter_init sample_lib (Some [''a'']) [Str ''x'', Str ''y''] (Some [False]) True
     = Inl (IndexError, \<lparr>f_lines = [], f_closed = True\<rparr>)"
  by (simp add: SparseWriter_init_def u_get_header_def coerce_default_def enumerate_eq_zip
      py_nth_def upt_rec BaseFile_init_write_def close_def)

text \<open>
  Claim C2 (the code differs). On a file of at least two lines, a loader built with
  neither header nor defaults never comes into being. When the csv reader accepts both
  lines, it reads them and passes \<open>header = None\<close> on to \<open>_get_header\<close>, which raises
  \<open>TypeError\<close>; when a field of one of the two lines exceeds the reader's limit, the
  reader's own error is raised at that line. Either way the file is closed.
\<close>

theorem loader_without_header_fails:
  "SparseLoader_init L (h # d # rest) None None numbers copy
     = Inl (if within_field_limit h \<and> within_field_limit d then TypeError else CsvError,
            \<lparr>f_lines = (if within_field_limit h then rest else d # rest), f_closed = True\<rparr>)"
proof -
  obtain ns where "mapM (u_is_num L) (map Str (map universal_newlines d)) = Inr ns"
    using mapM_u_is_num by blast
  then have "u_get_header L None (map Str (map universal_newlines d)) numbers copy
             = Inl TypeError"
    by (cases numbers) (simp_all add: u_get_header_def)
  then show ?thesis
    by (simp add: SparseLoader_init_def csv_next_def BaseFile_init_read_def close_def)
qed

section \<open>Indices out of range\<close>

lemma setitem_out_of_range:
  "i < 0 \<or> int (length (r_defaults r)) \<le> i \<Longrightarrow> fst (setitem L r (IxInt i) v) = Inl IndexError"
  by (auto simp: setitem_def u_check_range_def)

lemma delitem_out_of_range:
  "i < 0 \<or> int (length (r_defaults r)) \<le> i \<Longrightarrow> fst (delitem L r (IxInt i)) = Inl IndexError"
  by (auto simp: delitem_def u_check_range_def)

lemma getitem_above_range:
  assumes "elided r" "int (length (r_defaults r)) \<le> i"
  shows "getitem L r (IxInt i) = Inl IndexError"
proof -
  have "map_of (r_values r) i = None"
  proof (rule ccontr)
    assume "map_of (r_values r) i \<noteq> None"
    then obtain v where "(i, v) \<in> set (r_values r)"
      by (auto dest: map_of_SomeD)
    with assms show False
      by (auto simp: elided_def list_all_iff)
  qed
  with assms(2) show ?thesis
    by (simp add: getitem_def u_get_def py_nth_above)
qed

text \<open>
  Claim C5 (the code differs). \<open>__getitem__\<close> does not call \<open>_check_range\<close>: on a
  row of one column, reading index \<open>-1\<close> misses the dictionary and falls back to the
  list access \<open>_defaults[-1]\<close>, which returns the default of the last column.
\<close>

theorem getitem_negative_index:
  "getitem sample_lib sample_row (IxInt (- 1)) = Inr (Num 0)"
  by (simp add: getitem_def u_get_def py_nth_def sample_row_def)

section \<open>Duplicate entries at construction\<close>

text \<open>
  Claim C7 (the code differs). \<open>add\<close> stores a value that is not the default and does
  nothing otherwise: built from the entries \<open>(0, "5.0")\<close> and \<open>(0, "0.0")\<close> over one
  numeric column with default \<open>0.0\<close>, the row still holds \<open>5.0\<close> in column 0, although
  the last entry converts to the default.
\<close>

theorem init_duplicate_default_keeps_earlier:
  "SparseRow_init sample_lib (Some [''a'']) [Str ''0.0''] None
       [Inr (IxInt 0, Str ''5.0''), Inr (IxInt 0, Str ''0.0'')] True = Inr sample_row
   \<and> u_convert sample_lib sample_row 0 (Str ''0.0'') = Inr (Num 0, True)
   \<and> getitem sample_lib sample_row (IxInt 0) = Inr (Num 0x4014000000000000)"
  by (simp add: SparseRow_init_def u_get_header_def u_is_num_def coerce_default_def
      enumerate_eq_zip py_nth_def add_def u_check_range_def u_convert_def sample_lib_def
      float_eq_def isnan_def is_zero_def sample_row_def getitem_def u_get_def)

section \<open>\<open>from_dense\<close>\<close>

lemma u_convert_schema:
  "r_defaults r' = r_defaults r \<Longrightarrow> r_numbers r' = r_numbers r
     \<Longrightarrow> u_convert L r' i v = u_convert L r i v"
  by (simp add: u_convert_def)

lemma u_convert_beyond: "int (length (r_defaults r)) \<le> i \<Longrightarrow> u_convert L r i v = Inl IndexError"
  by (simp add: u_convert_def py_nth_above)

lemma u_convert_typed:
  assumes ty: "typed_schema r" and i: "i < length (r_defaults r)"
    and c: "dense_cell L (r_numbers r ! i) v = Inr c"
  shows "u_convert L r (int i) v
           = Inr (c, default_equal (r_numbers r ! i) c (r_defaults r ! i))"
proof -
  have lt: "nat (int i) < length (r_defaults r)" using i by simp
  note tyD = typed_schemaD [OF ty lt]
  have d: "py_nth (r_defaults r) (int i) = Inr (r_defaults r ! i)"
    and n: "py_nth (r_numbers r) (int i) = Inr (r_numbers r ! i)"
    using i tyD(1) by (simp_all add: py_nth_in_range)
  show ?thesis
  proof (cases "r_numbers r ! i")
    case True
    with tyD(2) obtain g where g: "r_defaults r ! i = Num g" by auto
    from c True obtain f where f: "np_float64 L v = Inr f" "c = Num f"
      by (auto simp: dense_cell_def ebind_eq_Inr)
    show ?thesis
      using True g f d n
      by (simp add: u_convert_def default_equal_def is_nan_val_def float_eq_def)
  next
    case False
    with c have "c = v" by (simp add: dense_cell_def)
    with False d n show ?thesis
      by (simp add: u_convert_def default_equal_def)
  qed
qed

lemma parseable_dense_cell:
  assumes "parseable L r row" "i < length row" "i < length (r_numbers r)"
  shows "\<exists>c. dense_cell L (r_numbers r ! i) (row ! i) = Inr c"
proof -
  from assms have "r_numbers r ! i \<longrightarrow> is_float L (row ! i)"
    by (auto simp: parseable_def list_all_length)
  then show ?thesis
    by (auto simp: dense_cell_def is_float_def split: sum.splits)
qed

lemma enumerate_Cons: "enumerate k (x # xs) = (k, x) # enumerate (Suc k) xs"
  by simp

lemma loop_schema:
  "r_header (snd (from_dense_loop L r ps last_fix)) = r_header r
   \<and> r_defaults (snd (from_dense_loop L r ps last_fix)) = r_defaults r
   \<and> r_numbers (snd (from_dense_loop L r ps last_fix)) = r_numbers r"
proof (induction ps arbitrary: r last_fix)
  case Nil
  show ?case by simp
next
  case (Cons p ps)
  show ?case
  proof (cases "u_convert L r (int (fst p)) (snd p)")
    case (Inl e)
    then show ?thesis by simp
  next
    case (Inr c)
    then show ?thesis
      using Cons.IH [of "if \<not> snd c
          then r\<lparr>r_values := AList.update (int (fst p)) (fst c) (r_values r)\<rparr> else r"
          "int (fst p)"]
      by (cases "snd c") simp_all
  qed
qed

lemma loop_distinct:
  "distinct (map fst (r_values r))
     \<Longrightarrow> distinct (map fst (r_values (snd (from_dense_loop L r ps last_fix))))"
proof (induction ps arbitrary: r last_fix)
  case Nil
  then show ?case by simp
next
  case (Cons p ps)
  show ?case
  proof (cases "u_convert L r (int (fst p)) (snd p)")
    case (Inl e)
    with Cons.prems show ?thesis by simp
  next
    case (Inr c)
    have "distinct (map fst (r_values (if \<not> snd c
          then r\<lparr>r_values := AList.update (int (fst p)) (fst c) (r_values r)\<rparr> else r)))"
      using Cons.prems by (simp add: distinct_update)
    from Cons.IH [OF this] Inr show ?thesis by simp
  qed
qed

lemma loop_status:
  assumes "typed_schema r" "k \<le> length (r_defaults r)"
    and "\<forall>j<length xs. k + j < length (r_defaults r)
            \<longrightarrow> (\<exists>c. dense_cell L (r_numbers r ! (k + j)) (xs ! j) = Inr c)"
  shows "fst (from_dense_loop L r (enumerate k xs) last_fix)
           = (if length (r_defaults r) < k + length xs then Inl IndexError
              else Inr (if xs = [] then last_fix else int (k + length xs) - 1))"
  using assms
proof (induction xs arbitrary: k r last_fix)
  case Nil
  then show ?case by simp
next
  case (Cons x xs)
  show ?case
  proof (cases "k < length (r_defaults r)")
    case False
    with Cons.prems(2) have "u_convert L r (int k) x = Inl IndexError"
      by (simp add: u_convert_beyond)
    with False show ?thesis by (simp add: enumerate_Cons del: enumerate_simps)
  next
    case True
    with Cons.prems(3) obtain c where "dense_cell L (r_numbers r ! k) x = Inr c"
      by fastforce
    from u_convert_typed [OF Cons.prems(1) True this]
    have conv: "u_convert L r (int k) x
        = Inr (c, default_equal (r_numbers r ! k) c (r_defaults r ! k))" .
    let ?r1 = "if \<not> default_equal (r_numbers r ! k) c (r_defaults r ! k)
          then r\<lparr>r_values := AList.update (int k) c (r_values r)\<rparr> else r"
    have s: "r_defaults ?r1 = r_defaults r" "r_numbers ?r1 = r_numbers r"
      by simp_all
    have ty1: "typed_schema ?r1"
      using Cons.prems(1) by (simp add: typed_schema_def)
    have k1: "Suc k \<le> length (r_defaults ?r1)"
      using True by simp
    have cells1: "\<forall>j<length xs. Suc k + j < length (r_defaults ?r1)
            \<longrightarrow> (\<exists>c. dense_cell L (r_numbers ?r1 ! (Suc k + j)) (xs ! j) = Inr c)"
    proof (intro allI impI)
      fix j assume "j < length xs" "Suc k + j < length (r_defaults ?r1)"
      with Cons.prems(3) [rule_format, of "Suc j"] s
      show "\<exists>c. dense_cell L (r_numbers ?r1 ! (Suc k + j)) (xs ! j) = Inr c"
        by simp
    qed
    from Cons.IH [OF ty1 k1 cells1, of "int k"] conv s
    show ?thesis
      by (cases "default_equal (r_numbers r ! k) c (r_defaults r ! k)")
        (auto simp add: enumerate_Cons simp del: enumerate_simps)
  qed
qed

lemma loop_other:
  assumes "i < int k \<or> int (k + length xs) \<le> i"
  shows "map_of (r_values (snd (from_dense_loop L r (enumerate k xs) last_fix))) i
           = map_of (r_values r) i"
  using assms
proof (induction xs arbitrary: k r last_fix)
  case Nil
  then show ?case by simp
next
  case (Cons x xs)
  show ?case
  proof (cases "u_convert L r (int k) x")
    case (Inl e)
    then show ?thesis by (simp add: enumerate_Cons del: enumerate_simps)
  next
    case (Inr c)
    let ?r1 = "if \<not> snd c then r\<lparr>r_values := AList.update (int k) (fst c) (r_values r)\<rparr>
               else r"
    from Cons.prems have ne: "i \<noteq> int k" and "i < int (Suc k) \<or> int (Suc k + length xs) \<le> i"
      by auto
    from Cons.IH [OF this(2), of ?r1 "int k"] Inr ne show ?thesis
      by (cases "snd c") (simp_all add: enumerate_Cons update_conv' del: enumerate_simps)
  qed
qed


lemma loop_values:
  assumes "typed_schema r" "k + length xs \<le> length (r_defaults r)"
    and "j < length xs" "dense_cell L (r_numbers r ! (k + j)) (xs ! j) = Inr c"
    and "\<forall>j<length xs. \<exists>c. dense_cell L (r_numbers r ! (k + j)) (xs ! j) = Inr c"
  shows "map_of (r_values (snd (from_dense_loop L r (enumerate k xs) last_fix))) (int (k + j))
           = (if default_equal (r_numbers r ! (k + j)) c (r_defaults r ! (k + j))
              then map_of (r_values r) (int (k + j)) else Some c)"
  using assms
proof (induction xs arbitrary: k r last_fix j)
  case Nil
  then show ?case by simp
next
  case (Cons x xs)
  from Cons.prems(2) have klt: "k < length (r_defaults r)" by simp
  from Cons.prems(5) [rule_format, of 0] obtain c0
    where c0: "dense_cell L (r_numbers r ! k) x = Inr c0" by auto
  from u_convert_typed [OF Cons.prems(1) klt c0]
  have conv: "u_convert L r (int k) x
      = Inr (c0, default_equal (r_numbers r ! k) c0 (r_defaults r ! k))" .
  let ?r1 = "if \<not> default_equal (r_numbers r ! k) c0 (r_defaults r ! k)
        then r\<lparr>r_values := AList.update (int k) c0 (r_values r)\<rparr> else r"
  have s: "r_defaults ?r1 = r_defaults r" "r_numbers ?r1 = r_numbers r"
    by simp_all
  have step: "from_dense_loop L r (enumerate k (x # xs)) last_fix
      = from_dense_loop L ?r1 (enumerate (Suc k) xs) (int k)"
    using conv by (simp add: enumerate_Cons del: enumerate_simps)
  have first: "map_of (r_values ?r1) (int k)
      = (if default_equal (r_numbers r ! k) c0 (r_defaults r ! k)
         then map_of (r_values r) (int k) else Some c0)"
    by (simp add: update_conv')
  have others: "i \<noteq> int k \<Longrightarrow> map_of (r_values ?r1) i = map_of (r_values r) i" for i
    by (simp add: update_conv')
  show ?case
  proof (cases j)
    case 0
    with Cons.prems(4) c0 have "c = c0" by simp
    have "map_of (r_values (snd (from_dense_loop L ?r1 (enumerate (Suc k) xs) (int k)))) (int k)
        = map_of (r_values ?r1) (int k)"
      by (rule loop_other) simp
    with first step 0 \<open>c = c0\<close> show ?thesis by simp
  next
    case (Suc j')
    have ty1: "typed_schema ?r1"
      using Cons.prems(1) by (simp add: typed_schema_def)
    have len1: "Suc k + length xs \<le> length (r_defaults ?r1)"
      using Cons.prems(2) by simp
    have j': "j' < length xs" using Cons.prems(3) Suc by simp
    have cj: "dense_cell L (r_numbers ?r1 ! (Suc k + j')) (xs ! j') = Inr c"
      using Cons.prems(4) Suc by simp
    have all1: "\<forall>j<length xs. \<exists>c. dense_cell L (r_numbers ?r1 ! (Suc k + j)) (xs ! j) = Inr c"
    proof (intro allI impI)
      fix j assume "j < length xs"
      with Cons.prems(5) [rule_format, of "Suc j"]
      show "\<exists>c. dense_cell L (r_numbers ?r1 ! (Suc k + j)) (xs ! j) = Inr c"
        by simp
    qed
    have "int (Suc k + j') \<noteq> int k" by simp
    from Cons.IH [OF ty1 len1 j' cj all1, of "int k"] others [OF this] step Suc
    show ?thesis by simp
  qed
qed

lemma float_eq_sym: "float_eq a b \<Longrightarrow> float_eq b a"
  by (auto simp: float_eq_def)

lemma py_eq_sym: "py_eq a b \<Longrightarrow> py_eq b a"
  by (cases a; cases b) (auto dest: float_eq_sym)

lemma default_equal_sym: "default_equal n a b \<Longrightarrow> default_equal n b a"
  by (auto simp: default_equal_def dest: py_eq_sym split: if_splits)

lemma default_equal_Num_refl: "default_equal True (Num f) (Num f)"
  by (simp add: default_equal_def is_nan_val_def float_eq_def)

lemma default_equal_Str_refl: "default_equal n (Str s) (Str s)"
  by (simp add: default_equal_def)

lemma mapM_map: "(\<And>x. x \<in> set xs \<Longrightarrow> f x = Inr (g x)) \<Longrightarrow> mapM f xs = Inr (map g xs)"
  by (induction xs) simp_all

lemma row_iter_dense:
  "row_iter r = Inr (map (\<lambda>i. case map_of (r_values r) (int i) of
                              Some v \<Rightarrow> v | None \<Rightarrow> r_defaults r ! i)
                      [0..<length (r_defaults r)])"
proof -
  have "mapM (u_get r) (map int [0..<length (r_defaults r)])
      = Inr (map (\<lambda>i. case map_of (r_values r) i of
                              Some v \<Rightarrow> v | None \<Rightarrow> r_defaults r ! nat i)
               (map int [0..<length (r_defaults r)]))"
    by (rule mapM_map) (auto simp: u_get_def py_nth_in_range split: option.splits)
  then show ?thesis
    by (simp add: row_iter_def comp_def cong: option.case_cong)
qed

lemma from_dense_status:
  assumes ty: "typed_schema r" and ne: "r_defaults r \<noteq> []" and pa: "parseable L r row"
  shows "fst (from_dense L r row)
           = (if length (r_defaults r) < length row then Inl IndexError else Inr ())"
proof -
  let ?r0 = "r\<lparr>r_values := []\<rparr>"
  have ty0: "typed_schema ?r0" using ty by (simp add: typed_schema_def)
  have len: "length (r_numbers r) = length (r_defaults r)"
    using ty by (simp add: typed_schema_def list_all2_lengthD)
  have cells: "\<forall>j<length row. 0 + j < length (r_defaults ?r0)
      \<longrightarrow> (\<exists>c. dense_cell L (r_numbers ?r0 ! (0 + j)) (row ! j) = Inr c)"
    using parseable_dense_cell [OF pa] len by simp
  obtain res r' where lp: "from_dense_loop L ?r0 (enumerate 0 row) 0 = (res, r')"
    by (cases "from_dense_loop L ?r0 (enumerate 0 row) 0")
  from loop_status [OF ty0 _ cells, of 0] lp
  have res: "res = (if length (r_defaults r) < length row then Inl IndexError
      else Inr (if row = [] then 0 else int (length row) - 1))"
    by simp
  from loop_schema [of L ?r0 "enumerate 0 row" 0] lp
  have d': "r_defaults r' = r_defaults r" by simp
  show ?thesis
  proof (cases "length (r_defaults r) < length row")
    case True
    with res lp show ?thesis by (simp add: from_dense_def)
  next
    case False
    with res have "res = Inr (if row = [] then 0 else int (length row) - 1)" by simp
    moreover have "u_check_range r' (if row = [] then 0 else int (length row) - 1) = Inr ()"
      using False ne d' by (auto simp: u_check_range_def)
    ultimately show ?thesis
      using lp False by (simp add: from_dense_def)
  qed
qed

lemma from_dense_snd:
  "snd (from_dense L r row) = snd (from_dense_loop L (r\<lparr>r_values := []\<rparr>) (enumerate 0 row) 0)"
  by (auto simp: from_dense_def split: prod.splits sum.splits)

lemma from_dense_schema:
  "r_header (snd (from_dense L r row)) = r_header r
   \<and> r_defaults (snd (from_dense L r row)) = r_defaults r
   \<and> r_numbers (snd (from_dense L r row)) = r_numbers r"
  using loop_schema [of L "r\<lparr>r_values := []\<rparr>" "enumerate 0 row" 0]
  by (simp add: from_dense_snd)

lemma from_dense_distinct: "distinct (map fst (r_values (snd (from_dense L r row))))"
  using loop_distinct [of "r\<lparr>r_values := []\<rparr>" L "enumerate 0 row" 0]
  by (simp add: from_dense_snd)

lemma from_dense_values:
  assumes ty: "typed_schema r" and len: "length row \<le> length (r_defaults r)"
    and pa: "parseable L r row" and j: "j < length row"
    and c: "dense_cell L (r_numbers r ! j) (row ! j) = Inr c"
  shows "map_of (r_values (snd (from_dense L r row))) (int j)
           = (if default_equal (r_numbers r ! j) c (r_defaults r ! j) then None else Some c)"
proof -
  let ?r0 = "r\<lparr>r_values := []\<rparr>"
  have ty0: "typed_schema ?r0" using ty by (simp add: typed_schema_def)
  have nlen: "length (r_numbers r) = length (r_defaults r)"
    using ty by (simp add: typed_schema_def list_all2_lengthD)
  have cells: "\<forall>j<length row. \<exists>c. dense_cell L (r_numbers ?r0 ! (0 + j)) (row ! j) = Inr c"
    using parseable_dense_cell [OF pa] len nlen by simp
  from loop_values [OF ty0 _ j _ cells, of c 0] len c
  show ?thesis
    by (simp add: from_dense_snd)
qed

lemma from_dense_values_beyond:
  "int (length row) \<le> i \<or> i < 0 \<Longrightarrow> map_of (r_values (snd (from_dense L r row))) i = None"
  using loop_other [of i 0 row L "r\<lparr>r_values := []\<rparr>" 0]
  by (auto simp: from_dense_snd)

text \<open>
  Claim C6, as the code has it. Over a typed schema with at least one column, and when
  the values of the numeric columns parse, \<open>from_dense\<close> raises \<open>IndexError\<close> exactly
  when the sequence is longer than the schema; every sequence that is not longer is
  accepted, and reading a column the sequence does not cover returns that column's
  default.
\<close>

theorem from_dense_length_check:
  assumes "typed_schema r" "r_defaults r \<noteq> []" "parseable L r row"
  shows "fst (from_dense L r row)
           = (if length (r_defaults r) < length row then Inl IndexError else Inr ())
         \<and> (\<forall>i. length row \<le> i \<and> i < length (r_defaults r) \<longrightarrow>
                getitem L (snd (from_dense L r row)) (IxInt (int i)) = Inr (r_defaults r ! i))"
proof (intro conjI allI impI)
  show "fst (from_dense L r row)
           = (if length (r_defaults r) < length row then Inl IndexError else Inr ())"
    using assms by (rule from_dense_status)
next
  fix i assume i: "length row \<le> i \<and> i < length (r_defaults r)"
  then have "map_of (r_values (snd (from_dense L r row))) (int i) = None"
    by (intro from_dense_values_beyond) simp
  moreover have "r_defaults (snd (from_dense L r row)) = r_defaults r"
    using from_dense_schema [of L r row] by simp
  ultimately show "getitem L (snd (from_dense L r row)) (IxInt (int i)) = Inr (r_defaults r ! i)"
    using i by (simp add: getitem_def u_get_def py_nth_in_range)
qed

text \<open>
  Witness for C6: over the two columns of the second sample row, three values raise
  \<open>IndexError\<close>, two values are accepted, and one value is accepted with the second
  column reading as its default \<open>"x"\<close>.
\<close>

theorem from_dense_length_check_witness:
  "typed_schema sample_row2 \<and> r_defaults sample_row2 \<noteq> []
   \<and> parseable sample_lib sample_row2 [Str ''5.0'', Str ''y'', Str ''z'']
   \<and> parseable sample_lib sample_row2 [Str ''5.0'', Str ''y'']
   \<and> parseable sample_lib sample_row2 [Str ''5.0'']
   \<and> fst (from_dense sample_lib sample_row2 [Str ''5.0'', Str ''y'', Str ''z'']) = Inl IndexError
   \<and> fst (from_dense sample_lib sample_row2 [Str ''5.0'', Str ''y'']) = Inr ()
   \<and> fst (from_dense sample_lib sample_row2 [Str ''5.0'']) = Inr ()
   \<and> length [Str ''5.0''] \<le> (1::nat) \<and> (1::nat) < length (r_defaults sample_row2)
   \<and> getitem sample_lib (snd (from_dense sample_lib sample_row2 [Str ''5.0''])) (IxInt 1)
       = Inr (Str ''x'')"
proof -
  have h: "typed_schema sample_row2" "r_defaults sample_row2 \<noteq> []"
    "parseable sample_lib sample_row2 [Str ''5.0'', Str ''y'', Str ''z'']"
    "parseable sample_lib sample_row2 [Str ''5.0'', Str ''y'']"
    "parseable sample_lib sample_row2 [Str ''5.0'']"
    by (simp_all add: typed_schema_def sample_row2_def parseable_def is_float_def
        sample_lib_def)
  have d: "length (r_defaults sample_row2) = 2" "r_defaults sample_row2 ! 1 = Str ''x''"
    by (simp_all add: sample_row2_def)
  note long = from_dense_length_check [OF h(1,2,3)]
    and full = from_dense_length_check [OF h(1,2,4)]
    and short = from_dense_length_check [OF h(1,2,5)]
  from short [THEN conjunct2, rule_format, of 1]
  have "getitem sample_lib (snd (from_dense sample_lib sample_row2 [Str ''5.0'']))
      (IxInt 1) = Inr (Str ''x'')"
    using d by simp
  with long full short h d(1) show ?thesis by simp
qed

text \<open>
  Counterexample to C6 as stated: one value for a schema of two columns is a sequence
  whose length differs from N, and \<open>from_dense\<close> accepts it.
\<close>

theorem from_dense_short_row_accepted:
  "length [Num 0x4014000000000000] \<noteq> length (r_defaults sample_row2)
   \<and> from_dense sample_lib sample_row2 [Num 0x4014000000000000]
       = (Inr (), sample_row2\<lparr>r_values := [(0, Num 0x4014000000000000)]\<rparr>)"
  by (simp add: from_dense_def u_convert_def u_check_range_def py_nth_def sample_row2_def
      float_eq_def isnan_def is_zero_def)

text \<open>
  Over a schema with no column the empty sequence has the schema's length, and the final
  check of \<open>last_fix = 0\<close> raises.
\<close>

lemma from_dense_empty_schema:
  "r_defaults r = [] \<Longrightarrow> fst (from_dense L r []) = Inl IndexError"
  by (simp add: from_dense_def u_check_range_def)

lemma py_eq_Str: "py_eq c (Str s) \<Longrightarrow> c = Str s"
  by (cases c) simp_all

lemma cell_same_dense_cell:
  assumes "dense_cell L n v = Inr c"
  shows "cell_same n c c"
proof (cases n)
  case True
  with assms obtain f where "c = Num f"
    by (auto simp: dense_cell_def ebind_eq_Inr)
  with True show ?thesis by (simp add: cell_same_def default_equal_Num_refl)
next
  case False
  then show ?thesis by (simp add: cell_same_def)
qed

lemma cell_same_default:
  assumes "default_equal n c d" "\<not> n \<Longrightarrow> \<exists>s. d = Str s"
  shows "cell_same n d c"
proof (cases n)
  case True
  with assms(1) show ?thesis by (simp add: cell_same_def default_equal_sym)
next
  case False
  with assms show ?thesis
    by (auto simp: cell_same_def default_equal_def dest: py_eq_Str)
qed

lemma reproducesI:
  assumes "length out = length vs" "length numbers = length vs"
    and "\<And>i. i < length vs \<Longrightarrow>
           \<exists>c. dense_cell L (numbers ! i) (vs ! i) = Inr c \<and> cell_same (numbers ! i) (out ! i) c"
  shows "reproduces L numbers out vs"
proof -
  have "case dense_cell L (fst p) (snd (snd p)) of
          Inr c \<Rightarrow> cell_same (fst p) (fst (snd p)) c | Inl e \<Rightarrow> False"
    if "p \<in> set (zip numbers (zip out vs))" for p
  proof -
    from that obtain i where "numbers ! i = fst p" "zip out vs ! i = snd p"
      "i < length numbers" "i < length (zip out vs)"
      unfolding in_set_zip by blast
    with assms(1,2) have i: "i < length vs" and p: "p = (numbers ! i, out ! i, vs ! i)"
      by (simp_all add: prod_eq_iff)
    from assms(3) [OF i] obtain c where "dense_cell L (numbers ! i) (vs ! i) = Inr c"
      "cell_same (numbers ! i) (out ! i) c" by blast
    with p show ?thesis by simp
  qed
  with assms(1) show ?thesis
    by (simp add: reproduces_def list_all_iff)
qed

text \<open>
  Claim C3, as the code has it. Over a typed schema with at least one column, for a dense
  row of the schema's length whose numeric-column values parse, \<open>from_dense\<close> returns
  normally, and the row it leaves iterates to exactly N values that reproduce the dense
  row column by column: equal by \<open>==\<close> or both NaN in a numeric column, the very same
  value in any other column.
\<close>

theorem from_dense_reproduces:
  assumes ty: "typed_schema r" and ne: "r_defaults r \<noteq> []"
    and len: "length V = length (r_defaults r)" and pa: "parseable L r V"
  shows "fst (from_dense L r V) = Inr ()
         \<and> (\<exists>out. row_iter (snd (from_dense L r V)) = Inr out
               \<and> length out = length (r_defaults r)
               \<and> reproduces L (r_numbers r) out V)"
proof -
  let ?r' = "snd (from_dense L r V)"
  let ?g = "\<lambda>i. case map_of (r_values ?r') (int i) of Some v \<Rightarrow> v | None \<Rightarrow> r_defaults ?r' ! i"
  let ?out = "map ?g [0..<length (r_defaults ?r')]"
  have nlen: "length (r_numbers r) = length (r_defaults r)"
    using ty by (simp add: typed_schema_def list_all2_lengthD)
  have sch: "r_defaults ?r' = r_defaults r"
    using from_dense_schema [of L r V] by simp
  have it: "row_iter ?r' = Inr ?out" by (rule row_iter_dense)
  have cell: "\<exists>c. dense_cell L (r_numbers r ! i) (V ! i) = Inr c
        \<and> cell_same (r_numbers r ! i) (?out ! i) c"
    if i: "i < length V" for i
  proof -
    from parseable_dense_cell [OF pa i] i len nlen obtain c
      where c: "dense_cell L (r_numbers r ! i) (V ! i) = Inr c" by auto
    from i len have lt: "nat (int i) < length (r_defaults r)" by simp
    have tx: "\<not> r_numbers r ! i \<Longrightarrow> \<exists>s. r_defaults r ! i = Str s"
      using typed_schemaD(3) [OF ty lt] by simp
    have out: "?out ! i = ?g i" using i len sch by (simp cong: option.case_cong)
    have "cell_same (r_numbers r ! i) (?g i) c"
    proof (cases "default_equal (r_numbers r ! i) c (r_defaults r ! i)")
      case True
      with from_dense_values [OF ty _ pa i c] len sch
      have "?g i = r_defaults r ! i" by simp
      with cell_same_default [OF True tx] show ?thesis by simp
    next
      case False
      with from_dense_values [OF ty _ pa i c] len
      have "?g i = c" by simp
      with cell_same_dense_cell [OF c] show ?thesis by simp
    qed
    with c out show ?thesis by simp
  qed
  have rep: "reproduces L (r_numbers r) ?out V"
  proof (rule reproducesI)
    show "length ?out = length V" using len sch by simp
    show "length (r_numbers r) = length V" using len nlen by simp
  qed (rule cell)
  have ok: "fst (from_dense L r V) = Inr ()"
    using from_dense_status [OF ty ne pa] len by simp
  have "length ?out = length (r_defaults r)" using sch by simp
  with it rep ok show ?thesis by blast
qed

text \<open>
  Witness for C3: the dense row \<open>["5.0", "x"]\<close> over the second sample row.
\<close>

theorem from_dense_reproduces_witness:
  "typed_schema sample_row2 \<and> r_defaults sample_row2 \<noteq> []
   \<and> length [Str ''5.0'', Str ''x''] = length (r_defaults sample_row2)
   \<and> parseable sample_lib sample_row2 [Str ''5.0'', Str ''x'']
   \<and> fst (from_dense sample_lib sample_row2 [Str ''5.0'', Str ''x'']) = Inr ()
   \<and> (\<exists>out. row_iter (snd (from_dense sample_lib sample_row2 [Str ''5.0'', Str ''x''])) = Inr out
         \<and> length out = length (r_defaults sample_row2)
         \<and> reproduces sample_lib (r_numbers sample_row2) out [Str ''5.0'', Str ''x''])"
proof -
  have h: "typed_schema sample_row2" "r_defaults sample_row2 \<noteq> []"
    "length [Str ''5.0'', Str ''x''] = length (r_defaults sample_row2)"
    "parseable sample_lib sample_row2 [Str ''5.0'', Str ''x'']"
    by (simp_all add: typed_schema_def sample_row2_def parseable_def is_float_def
        sample_lib_def)
  from from_dense_reproduces [OF h] h show ?thesis by simp
qed

text \<open>
  Counterexample to C3 as stated. The untyped row is what
  \<open>SparseRow(["a"], ["0.0"], copy=False)\<close> builds; its one column is numeric, and the
  dense row \<open>["nan"]\<close> has its length and parses as a float. \<open>from_dense\<close> raises
  \<open>TypeError\<close>, because \<open>np.isnan\<close> is applied to the text default, and the row then
  iterates to the text \<open>"0.0"\<close>, which does not reproduce the NaN.
\<close>

theorem from_dense_untyped_row_fails:
  "SparseRow_init sample_lib (Some [''a'']) [Str ''0.0''] None [] False = Inr untyped_row
   \<and> length [Str ''nan''] = length (r_defaults untyped_row)
   \<and> parseable sample_lib untyped_row [Str ''nan'']
   \<and> from_dense sample_lib untyped_row [Str ''nan''] = (Inl TypeError, untyped_row)
   \<and> row_iter untyped_row = Inr [Str ''0.0'']
   \<and> \<not> reproduces sample_lib (r_numbers untyped_row) [Str ''0.0''] [Str ''nan'']"
  by (simp add: SparseRow_init_def u_get_header_def u_is_num_def untyped_row_def
      parseable_def is_float_def from_dense_def u_convert_def py_nth_def row_iter_def
      u_get_def reproduces_def dense_cell_def cell_same_def default_equal_def is_nan_val_def
      sample_lib_def isnan_def upt_rec)

section \<open>The schema \<open>_get_header\<close> builds\<close>

lemma mapM_nth:
  "mapM f xs = Inr ys \<Longrightarrow> i < length xs \<Longrightarrow> f (xs ! i) = Inr (ys ! i)"
proof (induction xs arbitrary: ys i)
  case Nil
  then show ?case by simp
next
  case (Cons x xs)
  then show ?case
    by (cases i) (auto simp: ebind_eq_Inr)
qed

lemma u_get_header_typed:
  assumes "u_get_header L header defaults None True = Inr (h, d, n)"
  shows "list_all2 (\<lambda>n d. case d of Num f \<Rightarrow> n | Str s \<Rightarrow> \<not> n) n d"
proof -
  from assms obtain h0 where h0: "header = Some h0"
    using u_get_header_None by (cases header) auto
  from assms [unfolded h0 u_get_header_Some ebind_eq_Inr]
  obtain n' where n': "mapM (u_is_num L) defaults = Inr n'"
    and rest: "(if length h0 \<noteq> length n' then Inl (ValueError HeaderNumbersSize)
            else ebind (if True then mapM (coerce_default L n') (enumerate 0 defaults)
                        else Inr defaults)
              (\<lambda>d. if length h0 \<noteq> length d then Inl (ValueError HeaderDefaultsSize)
                   else Inr (h0, d, n'))) = Inr (h, d, n)"
    by auto
  from rest have len1: "length h0 = length n'"
    by (simp split: if_splits)
  with rest obtain d' where d': "mapM (coerce_default L n') (enumerate 0 defaults) = Inr d'"
    and fin: "(if length h0 \<noteq> length d' then Inl (ValueError HeaderDefaultsSize)
                   else Inr (h0, d', n')) = Inr (h, d, n)"
    by (auto simp: ebind_eq_Inr)
  from fin have eqs: "d = d'" "n = n'"
    by (simp_all split: if_splits)
  have ln: "length n' = length defaults" using n' by (rule mapM_length)
  have ld: "length d' = length defaults" using mapM_length [OF d'] by simp
  have "case d' ! i of Num f \<Rightarrow> n' ! i | Str s \<Rightarrow> \<not> n' ! i" if i: "i < length defaults" for i
  proof -
    from mapM_nth [OF n' i] have isn: "u_is_num L (defaults ! i) = Inr (n' ! i)" .
    from mapM_nth [OF d', of i] i
    have "coerce_default L n' (i, defaults ! i) = Inr (d' ! i)"
      by (simp add: nth_enumerate_eq)
    with i ln have co: "(if n' ! i then ebind (np_float64 L (defaults ! i)) (\<lambda>f. Inr (Num f))
        else Inr (defaults ! i)) = Inr (d' ! i)"
      by (simp add: coerce_default_def py_nth_in_range cong: if_cong)
    show ?thesis
    proof (cases "n' ! i")
      case True
      with co have "\<exists>f. Num f = d' ! i" by (auto simp: ebind_eq_Inr)
      then obtain f where "d' ! i = Num f" by metis
      with True show ?thesis by simp
    next
      case False
      with co have "d' ! i = defaults ! i" by simp
      moreover from isn False have "\<exists>s. defaults ! i = Str s"
        by (cases "defaults ! i") (auto simp: u_is_num_def)
      ultimately show ?thesis using False by auto
    qed
  qed
  with ln ld eqs show ?thesis
    by (simp add: list_all2_conv_all_nth)
qed

lemma SparseWriter_init_typed:
  assumes "SparseWriter_init L header defaults None True = Inr w"
  shows "typed_schema (writer_row w) \<and> length (w_header w) = length (w_defaults w)
         \<and> \<not> f_closed (w_file w)"
proof -
  from assms obtain h d n where g: "u_get_header L header defaults None True = Inr (h, d, n)"
    and w: "w_header w = h" "w_defaults w = d" "w_numbers w = n"
      "\<not> f_closed (w_file w)"
    by (auto simp: SparseWriter_init_def csv_writerow_def BaseFile_init_write_def
        split: sum.splits)
  from u_get_header_lengths [OF g] u_get_header_typed [OF g] w show ?thesis
    by (simp add: typed_schema_def writer_row_def)
qed

lemma sample_writer_init:
  "SparseWriter_init sample_lib (Some [''a'', ''b'']) [Str ''0.0'', Str ''x''] None True
     = Inr sample_writer"
  by (simp add: SparseWriter_init_def u_get_header_def u_is_num_def coerce_default_def
      enumerate_eq_zip py_nth_def upt_rec sample_lib_def sample_writer_def
      BaseFile_init_write_def csv_writerow_def)

section \<open>Writing dense rows and loading them back\<close>

lemma float_eq_trans: "float_eq a b \<Longrightarrow> float_eq b c \<Longrightarrow> float_eq a c"
  by (auto simp: float_eq_def)

lemma default_equal_trans:
  "default_equal n a b \<Longrightarrow> default_equal n b c \<Longrightarrow> default_equal n a c"
  by (cases a; cases b; cases c)
    (auto simp: default_equal_def is_nan_val_def float_eq_def split: if_splits)

lemma split_entry_token:
  assumes "CHR '':'' \<notin> set a"
  shows "split_entry (a @ '':'' @ b) = Inr (IxStr a, Str b)"
proof -
  have "takeWhile (\<lambda>c. c \<noteq> CHR '':'') (a @ CHR '':'' # b) = a"
    using assms by (induction a) auto
  moreover have "dropWhile (\<lambda>c. c \<noteq> CHR '':'') (a @ CHR '':'' # b) = CHR '':'' # b"
    using assms by (induction a) auto
  ultimately show ?thesis
    by (simp add: split_entry_def)
qed

lemma add_token:
  assumes ty: "typed_schema r" and i: "0 \<le> i" "i < int (length (r_defaults r))"
    and ix: "int_of_str L (str_of_int L i) = Some i" "CHR '':'' \<notin> set (str_of_int L i)"
    and cn: "r_numbers r ! nat i \<Longrightarrow> \<exists>f. c = Num f \<and> float_text_exact L f"
    and ct: "\<not> r_numbers r ! nat i \<Longrightarrow> \<exists>s. c = Str s"
  shows "\<exists>r'. ebind (split_entry (str_of_int L i @ '':'' @ py_str L c))
                 (\<lambda>p. add L r (fst p) (snd p)) = Inr r'
           \<and> r_header r' = r_header r \<and> r_defaults r' = r_defaults r
           \<and> r_numbers r' = r_numbers r
           \<and> ((\<exists>x. r_values r' = AList.update i x (r_values r)
                    \<and> parsed_back L (r_numbers r ! nat i) c x)
               \<or> (r_values r' = r_values r
                    \<and> default_equal (r_numbers r ! nat i) (r_defaults r ! nat i) c))"
proof -
  let ?n = "r_numbers r ! nat i" and ?d = "r_defaults r ! nat i"
  have lt: "nat i < length (r_defaults r)" using i by simp
  have "\<exists>x. dense_cell L ?n (Str (py_str L c)) = Inr x \<and> parsed_back L ?n c x
      \<and> default_equal ?n x c"
  proof (cases ?n)
    case True
    from cn [OF True] obtain f where f: "c = Num f" "float_text_exact L f" by blast
    then obtain g where g: "float_of_str L (str_of_float L f) = Some g"
      "if isnan f then isnan g else g = f"
      by (auto simp: float_text_exact_def split: option.splits)
    with True f show ?thesis
      by (auto simp: dense_cell_def default_equal_def is_nan_val_def parsed_back_def
          float_eq_def split: if_splits)
  next
    case False
    from ct [OF False] obtain s where "c = Str s" by blast
    with False show ?thesis
      by (simp add: dense_cell_def default_equal_def parsed_back_def)
  qed
  then obtain x where x: "dense_cell L ?n (Str (py_str L c)) = Inr x"
    and xp: "parsed_back L ?n c x" and xc: "default_equal ?n x c" by blast
  from u_convert_typed [OF ty lt x] i
  have conv: "u_convert L r i (Str (py_str L c)) = Inr (x, default_equal ?n x ?d)"
    by simp
  have sp: "split_entry (str_of_int L i @ '':'' @ py_str L c)
      = Inr (IxStr (str_of_int L i), Str (py_str L c))"
    by (rule split_entry_token) (rule ix(2))
  show ?thesis
  proof (cases "default_equal ?n x ?d")
    case True
    from default_equal_trans [OF default_equal_sym [OF True] xc]
    have "default_equal ?n ?d c" .
    with True sp conv ix(1) i show ?thesis
      by (simp add: add_def u_check_range_def)
  next
    case False
    with sp conv ix(1) i xp show ?thesis
      by (auto simp: add_def u_check_range_def)
  qed
qed


lemma add_all_tokens:
  assumes ty: "typed_schema r"
    and ok: "\<And>i c. (i, c) \<in> set sp \<Longrightarrow>
        0 \<le> i \<and> i < int (length (r_defaults r))
        \<and> int_of_str L (str_of_int L i) = Some i \<and> CHR '':'' \<notin> set (str_of_int L i)
        \<and> (r_numbers r ! nat i \<longrightarrow> (\<exists>f. c = Num f \<and> float_text_exact L f))
        \<and> (\<not> r_numbers r ! nat i \<longrightarrow> (\<exists>s. c = Str s))"
  shows "\<exists>r'. add_all L r
                 (map (\<lambda>p. split_entry (str_of_int L (fst p) @ '':'' @ py_str L (snd p))) sp)
               = Inr r'
           \<and> r_header r' = r_header r \<and> r_defaults r' = r_defaults r
           \<and> r_numbers r' = r_numbers r
           \<and> (\<forall>i x. map_of (r_values r') i = Some x \<longrightarrow>
                  map_of (r_values r) i = Some x
                  \<or> (\<exists>c. (i, c) \<in> set sp \<and> parsed_back L (r_numbers r ! nat i) c x))
           \<and> (\<forall>i c. (i, c) \<in> set sp \<longrightarrow>
                  map_of (r_values r') i \<noteq> None
                  \<or> default_equal (r_numbers r ! nat i) (r_defaults r ! nat i) c)
           \<and> (\<forall>i. map_of (r_values r) i \<noteq> None \<longrightarrow> map_of (r_values r') i \<noteq> None)"
  using assms
proof (induction sp arbitrary: r)
  case Nil
  then show ?case by simp
next
  case (Cons e sp)
  obtain i0 c0 where e: "e = (i0, c0)" by (cases e)
  from Cons.prems(2) [of i0 c0] e
  have ok0: "0 \<le> i0" "i0 < int (length (r_defaults r))"
    "int_of_str L (str_of_int L i0) = Some i0" "CHR '':'' \<notin> set (str_of_int L i0)"
    "r_numbers r ! nat i0 \<Longrightarrow> \<exists>f. c0 = Num f \<and> float_text_exact L f"
    "\<not> r_numbers r ! nat i0 \<Longrightarrow> \<exists>s. c0 = Str s"
    by simp_all
  from add_token [OF Cons.prems(1) ok0]
  obtain r1 where step: "ebind (split_entry (str_of_int L i0 @ '':'' @ py_str L c0))
                 (\<lambda>p. add L r (fst p) (snd p)) = Inr r1"
    and sch1: "r_header r1 = r_header r" "r_defaults r1 = r_defaults r"
      "r_numbers r1 = r_numbers r"
    and v1: "(\<exists>x. r_values r1 = AList.update i0 x (r_values r)
                    \<and> parsed_back L (r_numbers r ! nat i0) c0 x)
               \<or> (r_values r1 = r_values r
                    \<and> default_equal (r_numbers r ! nat i0) (r_defaults r ! nat i0) c0)"
    by blast
  have ty1: "typed_schema r1"
    using Cons.prems(1) sch1 by (simp add: typed_schema_def)
  have ok1: "0 \<le> i \<and> i < int (length (r_defaults r1))
        \<and> int_of_str L (str_of_int L i) = Some i \<and> CHR '':'' \<notin> set (str_of_int L i)
        \<and> (r_numbers r1 ! nat i \<longrightarrow> (\<exists>f. c = Num f \<and> float_text_exact L f))
        \<and> (\<not> r_numbers r1 ! nat i \<longrightarrow> (\<exists>s. c = Str s))"
    if "(i, c) \<in> set sp" for i c
    using Cons.prems(2) [of i c] that sch1 by simp
  from Cons.IH [OF ty1 ok1]
  obtain r' where rest: "add_all L r1
                 (map (\<lambda>p. split_entry (str_of_int L (fst p) @ '':'' @ py_str L (snd p))) sp)
               = Inr r'"
    and sch': "r_header r' = r_header r1" "r_defaults r' = r_defaults r1"
      "r_numbers r' = r_numbers r1"
    and A: "\<And>i x. map_of (r_values r') i = Some x \<Longrightarrow>
                  map_of (r_values r1) i = Some x
                  \<or> (\<exists>c. (i, c) \<in> set sp \<and> parsed_back L (r_numbers r1 ! nat i) c x)"
    and B: "\<And>i c. (i, c) \<in> set sp \<Longrightarrow>
                  map_of (r_values r') i \<noteq> None
                  \<or> default_equal (r_numbers r1 ! nat i) (r_defaults r1 ! nat i) c"
    and M: "\<And>i. map_of (r_values r1) i \<noteq> None \<Longrightarrow> map_of (r_values r') i \<noteq> None"
    by blast
  have run: "add_all L r
                 (map (\<lambda>p. split_entry (str_of_int L (fst p) @ '':'' @ py_str L (snd p)))
                    (e # sp)) = Inr r'"
    using step rest e by (auto simp: ebind_eq_Inr)
  have A': "map_of (r_values r) i = Some x
        \<or> (\<exists>c. (i, c) \<in> set (e # sp) \<and> parsed_back L (r_numbers r ! nat i) c x)"
    if "map_of (r_values r') i = Some x" for i x
  proof -
    from A [OF that] sch1 consider "map_of (r_values r1) i = Some x"
      | "\<exists>c. (i, c) \<in> set sp \<and> parsed_back L (r_numbers r ! nat i) c x"
      by auto
    then show ?thesis
    proof cases
      case 1
      with v1 e show ?thesis
        by (auto simp: update_conv' split: if_splits)
    next
      case 2
      then show ?thesis by auto
    qed
  qed
  have B': "map_of (r_values r') i \<noteq> None
        \<or> default_equal (r_numbers r ! nat i) (r_defaults r ! nat i) c"
    if "(i, c) \<in> set (e # sp)" for i c
  proof (cases "(i, c) = e")
    case True
    with e have ic: "i = i0" "c = c0" by simp_all
    from v1 show ?thesis
    proof
      assume "\<exists>x. r_values r1 = AList.update i0 x (r_values r)
          \<and> parsed_back L (r_numbers r ! nat i0) c0 x"
      then have "map_of (r_values r1) i0 \<noteq> None"
        by (auto simp: update_conv')
      from M [OF this] ic show ?thesis by simp
    next
      assume "r_values r1 = r_values r
          \<and> default_equal (r_numbers r ! nat i0) (r_defaults r ! nat i0) c0"
      with ic show ?thesis by simp
    qed
  next
    case False
    with that have "(i, c) \<in> set sp" by auto
    from B [OF this] sch1 show ?thesis by simp
  qed
  have M': "map_of (r_values r') i \<noteq> None" if "map_of (r_values r) i \<noteq> None" for i
  proof -
    from v1 that have "map_of (r_values r1) i \<noteq> None"
      by (auto simp: update_conv')
    then show ?thesis by (rule M)
  qed
  have sch: "r_header r' = r_header r" "r_defaults r' = r_defaults r"
    "r_numbers r' = r_numbers r"
    using sch' sch1 by simp_all
  show ?case
    by (intro exI [of _ r'] conjI allI impI)
      (fact run, fact sch, fact sch, fact sch, erule A', erule B', erule M')
qed

lemma text_stableD:
  assumes "text_stable L r vs" "i < length vs" "i < length (r_numbers r)"
  shows "r_numbers r ! i \<Longrightarrow> \<exists>f. np_float64 L (vs ! i) = Inr f \<and> float_text_exact L f"
    and "\<not> r_numbers r ! i \<Longrightarrow> \<exists>s. vs ! i = Str s"
proof -
  from assms have *: "if r_numbers r ! i
      then (case np_float64 L (vs ! i) of Inr f \<Rightarrow> float_text_exact L f | Inl e \<Rightarrow> False)
      else (case vs ! i of Str s \<Rightarrow> True | Num f \<Rightarrow> False)"
    by (auto simp: text_stable_def list_all_length)
  show "r_numbers r ! i \<Longrightarrow> \<exists>f. np_float64 L (vs ! i) = Inr f \<and> float_text_exact L f"
    using * by (cases "np_float64 L (vs ! i)") simp_all
  show "\<not> r_numbers r ! i \<Longrightarrow> \<exists>s. vs ! i = Str s"
    using * by (cases "vs ! i") simp_all
qed

lemma text_stable_parseable: "text_stable L r vs \<Longrightarrow> parseable L r vs"
  by (auto simp: text_stable_def parseable_def is_float_def list_all_iff split: sum.splits)

lemma index_text_okD:
  "index_text_ok L n \<Longrightarrow> i < n \<Longrightarrow>
     int_of_str L (str_of_int L (int i)) = Some (int i)
     \<and> CHR '':'' \<notin> set (str_of_int L (int i))"
  by (simp add: index_text_ok_def list_all_iff)

lemma SparseRow_init_no_copy:
  "length h = length n \<Longrightarrow> length h = length d \<Longrightarrow>
     SparseRow_init L (Some h) d (Some n) coo False
       = add_all L \<lparr>r_header = h, r_defaults = d, r_numbers = n, r_values = []\<rparr> coo"
  by (simp add: SparseRow_init_def u_get_header_def)

lemma loaded_cell_same:
  assumes "loaded_cell L n d v out" "\<not> n \<Longrightarrow> \<exists>s. d = Str s"
  shows "\<exists>c. dense_cell L n v = Inr c \<and> cell_same n out c"
proof -
  from assms(1) obtain c where c: "dense_cell L n v = Inr c"
    and o: "if default_equal n c d then out = d else parsed_back L n c out"
    by (auto simp: loaded_cell_def split: sum.splits)
  have "cell_same n out c"
  proof (cases "default_equal n c d")
    case True
    with o cell_same_default [OF True assms(2)] show ?thesis by simp
  next
    case False
    with o have pb: "parsed_back L n c out" by simp
    show ?thesis
    proof (cases "n \<and> is_nan_val c")
      case True
      with pb show ?thesis
        by (simp add: parsed_back_def cell_same_def default_equal_def)
    next
      case False
      with pb have "out = c" by (auto simp: parsed_back_def split: if_splits)
      with cell_same_dense_cell [OF c] show ?thesis by simp
    qed
  qed
  with c show ?thesis by blast
qed

lemma loaded_rowI:
  assumes "length out = length vs" "length (r_numbers r) = length vs"
    "length (r_defaults r) = length vs"
    and "\<And>i. i < length vs \<Longrightarrow>
           loaded_cell L (r_numbers r ! i) (r_defaults r ! i) (vs ! i) (out ! i)"
  shows "loaded_row L r out vs"
proof -
  have "loaded_cell L (fst p) (fst (snd p)) (snd (snd (snd p))) (fst (snd (snd p)))"
    if "p \<in> set (zip (r_numbers r) (zip (r_defaults r) (zip out vs)))" for p
  proof -
    from that obtain i where "r_numbers r ! i = fst p"
      "zip (r_defaults r) (zip out vs) ! i = snd p"
      "i < length (r_numbers r)" "i < length (zip (r_defaults r) (zip out vs))"
      unfolding in_set_zip by blast
    with assms(1-3) have i: "i < length vs"
      and p: "p = (r_numbers r ! i, r_defaults r ! i, out ! i, vs ! i)"
      by (simp_all add: prod_eq_iff)
    from assms(4) [OF i] p show ?thesis by simp
  qed
  with assms(1) show ?thesis
    by (simp add: loaded_row_def list_all_iff)
qed

lemma row_round_trip:
  assumes ty: "typed_schema r0" and hl: "length (r_header r0) = length (r_defaults r0)"
    and ne: "r_defaults r0 \<noteq> []" and emp: "r_values r0 = []"
    and idx: "index_text_ok L (length (r_defaults r0))"
    and len: "length vs = length (r_defaults r0)" and st: "text_stable L r0 vs"
  shows "fst (from_dense L r0 vs) = Inr ()
       \<and> (\<exists>r'' out.
            SparseRow_init L (Some (r_header r0)) (r_defaults r0) (Some (r_numbers r0))
              (map split_entry
                 (map (\<lambda>p. str_of_int L (fst p) @ '':'' @ py_str L (snd p))
                    (get_values (snd (from_dense L r0 vs))))) False = Inr r''
            \<and> row_iter r'' = Inr out \<and> reproduces L (r_numbers r0) out vs
            \<and> loaded_row L r0 out vs)"
proof -
  let ?N = "length (r_defaults r0)"
  let ?n = "r_numbers r0" and ?d = "r_defaults r0"
  let ?sp = "r_values (snd (from_dense L r0 vs))"
  have nlen: "length ?n = ?N"
    using ty by (simp add: typed_schema_def list_all2_lengthD)
  have pa: "parseable L r0 vs" using st by (rule text_stable_parseable)
  have ok: "fst (from_dense L r0 vs) = Inr ()"
    using from_dense_status [OF ty ne pa] len by simp
  have dist: "distinct (map fst ?sp)" by (rule from_dense_distinct)
  have cellj: "\<exists>c. dense_cell L (?n ! j) (vs ! j) = Inr c
      \<and> (?n ! j \<longrightarrow> (\<exists>f. c = Num f \<and> float_text_exact L f))
      \<and> (\<not> ?n ! j \<longrightarrow> (\<exists>s. c = Str s))
      \<and> map_of ?sp (int j) = (if default_equal (?n ! j) c (?d ! j) then None else Some c)"
    if j: "j < ?N" for j
  proof -
    from j len nlen have jv: "j < length vs" and jn: "j < length ?n" by simp_all
    note sD = text_stableD [OF st jv jn]
    have "\<exists>c. dense_cell L (?n ! j) (vs ! j) = Inr c
      \<and> (?n ! j \<longrightarrow> (\<exists>f. c = Num f \<and> float_text_exact L f))
      \<and> (\<not> ?n ! j \<longrightarrow> (\<exists>s. c = Str s))"
    proof (cases "?n ! j")
      case True
      with sD(1) show ?thesis by (auto simp: dense_cell_def)
    next
      case False
      with sD(2) show ?thesis by (auto simp: dense_cell_def)
    qed
    then obtain c where c: "dense_cell L (?n ! j) (vs ! j) = Inr c"
      "?n ! j \<longrightarrow> (\<exists>f. c = Num f \<and> float_text_exact L f)"
      "\<not> ?n ! j \<longrightarrow> (\<exists>s. c = Str s)" by blast
    from from_dense_values [OF ty _ pa jv c(1)] len
    have "map_of ?sp (int j) = (if default_equal (?n ! j) c (?d ! j) then None else Some c)"
      by simp
    with c show ?thesis by blast
  qed
  have entry: "0 \<le> i \<and> i < int ?N
        \<and> int_of_str L (str_of_int L i) = Some i \<and> CHR '':'' \<notin> set (str_of_int L i)
        \<and> (?n ! nat i \<longrightarrow> (\<exists>f. c = Num f \<and> float_text_exact L f))
        \<and> (\<not> ?n ! nat i \<longrightarrow> (\<exists>s. c = Str s))
        \<and> dense_cell L (?n ! nat i) (vs ! nat i) = Inr c"
    if "(i, c) \<in> set ?sp" for i c
  proof -
    from that dist have m: "map_of ?sp i = Some c" by simp
    have rng: "0 \<le> i \<and> i < int ?N"
    proof (rule ccontr)
      assume "\<not> (0 \<le> i \<and> i < int ?N)"
      with len have "int (length vs) \<le> i \<or> i < 0" by auto
      from from_dense_values_beyond [OF this, of L r0] m show False by simp
    qed
    then have j: "nat i < ?N" and ij: "int (nat i) = i" by auto
    from cellj [OF j] obtain c' where c': "dense_cell L (?n ! nat i) (vs ! nat i) = Inr c'"
      "?n ! nat i \<longrightarrow> (\<exists>f. c' = Num f \<and> float_text_exact L f)"
      "\<not> ?n ! nat i \<longrightarrow> (\<exists>s. c' = Str s)"
      "map_of ?sp (int (nat i))
         = (if default_equal (?n ! nat i) c' (?d ! nat i) then None else Some c')"
      by blast
    from c'(4) m ij have "c' = c" by (simp split: if_splits)
    note ixo = index_text_okD [OF idx j, unfolded ij]
    from rng have "0 \<le> i" "i < int ?N" by simp_all
    moreover from ixo have "int_of_str L (str_of_int L i) = Some i"
      "CHR '':'' \<notin> set (str_of_int L i)" by simp_all
    moreover from c'(1-3) \<open>c' = c\<close>
    have "?n ! nat i \<longrightarrow> (\<exists>f. c = Num f \<and> float_text_exact L f)"
      "\<not> ?n ! nat i \<longrightarrow> (\<exists>s. c = Str s)"
      "dense_cell L (?n ! nat i) (vs ! nat i) = Inr c" by simp_all
    ultimately show ?thesis by blast
  qed
  let ?e = "\<lparr>r_header = r_header r0, r_defaults = ?d, r_numbers = ?n, r_values = []\<rparr>"
  have tye: "typed_schema ?e" using ty by (simp add: typed_schema_def)
  have oke: "0 \<le> i \<and> i < int (length (r_defaults ?e))
        \<and> int_of_str L (str_of_int L i) = Some i \<and> CHR '':'' \<notin> set (str_of_int L i)
        \<and> (r_numbers ?e ! nat i \<longrightarrow> (\<exists>f. c = Num f \<and> float_text_exact L f))
        \<and> (\<not> r_numbers ?e ! nat i \<longrightarrow> (\<exists>s. c = Str s))"
    if "(i, c) \<in> set ?sp" for i c
    using entry [OF that] by simp
  from add_all_tokens [OF tye oke]
  obtain r'' where run: "add_all L ?e
        (map (\<lambda>p. split_entry (str_of_int L (fst p) @ '':'' @ py_str L (snd p))) ?sp)
      = Inr r''"
    and sch: "r_defaults r'' = ?d" "r_numbers r'' = ?n"
    and A: "\<And>i x. map_of (r_values r'') i = Some x \<Longrightarrow>
        \<exists>c. (i, c) \<in> set ?sp \<and> parsed_back L (?n ! nat i) c x"
    and B: "\<And>i c. (i, c) \<in> set ?sp \<Longrightarrow>
        map_of (r_values r'') i \<noteq> None \<or> default_equal (?n ! nat i) (?d ! nat i) c"
    by (simp del: map_of_eq_Some_iff) blast
  have init: "SparseRow_init L (Some (r_header r0)) ?d (Some ?n)
      (map split_entry (map (\<lambda>p. str_of_int L (fst p) @ '':'' @ py_str L (snd p))
          (get_values (snd (from_dense L r0 vs))))) False = Inr r''"
    using run hl nlen by (simp add: SparseRow_init_no_copy get_values_def comp_def)
  let ?g = "\<lambda>i. case map_of (r_values r'') (int i) of Some v \<Rightarrow> v | None \<Rightarrow> r_defaults r'' ! i"
  let ?out = "map ?g [0..<length (r_defaults r'')]"
  have it: "row_iter r'' = Inr ?out" by (rule row_iter_dense)
  have lc: "loaded_cell L (?n ! j) (?d ! j) (vs ! j) (?out ! j)" if "j < length vs" for j
  proof -
    from that len have j: "j < ?N" by simp
    from cellj [OF j] obtain c where c: "dense_cell L (?n ! j) (vs ! j) = Inr c"
      and m: "map_of ?sp (int j) = (if default_equal (?n ! j) c (?d ! j) then None else Some c)"
      by blast
    have out: "?out ! j = ?g j" using j sch by (simp cong: option.case_cong)
    have "if default_equal (?n ! j) c (?d ! j) then ?g j = ?d ! j
          else parsed_back L (?n ! j) c (?g j)"
    proof (cases "default_equal (?n ! j) c (?d ! j)")
      case True
      have "map_of (r_values r'') (int j) = None"
      proof (cases "map_of (r_values r'') (int j)")
        case None
        then show ?thesis .
      next
        case (Some x)
        from A [OF Some] obtain c' where "(int j, c') \<in> set ?sp" by auto
        with dist have "map_of ?sp (int j) = Some c'" by simp
        with m True show ?thesis by simp
      qed
      with True sch show ?thesis by simp
    next
      case False
      with m dist have mem: "(int j, c) \<in> set ?sp" by simp
      from False have "\<not> default_equal (?n ! j) (?d ! j) c"
        by (auto dest: default_equal_sym)
      with B [OF mem] obtain x where x: "map_of (r_values r'') (int j) = Some x"
        by auto
      from A [OF x] obtain c' where c': "(int j, c') \<in> set ?sp"
        "parsed_back L (?n ! j) c' x" by auto
      from entry [OF c'(1)] c have "c' = c" by simp
      with c'(2) x False show ?thesis by simp
    qed
    with c out show ?thesis by (simp add: loaded_cell_def)
  qed
  have lr: "loaded_row L r0 ?out vs"
  proof (rule loaded_rowI)
    show "length ?out = length vs" using sch len by simp
    show "length ?n = length vs" using nlen len by simp
    show "length ?d = length vs" using len by simp
  qed (rule lc)
  have rep: "reproduces L ?n ?out vs"
  proof (rule reproducesI)
    show "length ?out = length vs" using sch len by simp
    show "length ?n = length vs" using nlen len by simp
  next
    fix j assume jv: "j < length vs"
    with len have lt: "nat (int j) < ?N" by simp
    have "\<not> ?n ! j \<Longrightarrow> \<exists>s. ?d ! j = Str s"
      using typed_schemaD(3) [OF ty lt] by simp
    with lc [OF jv]
    show "\<exists>c. dense_cell L (?n ! j) (vs ! j) = Inr c \<and> cell_same (?n ! j) (?out ! j) c"
      by (rule loaded_cell_same)
  qed
  from ok init it rep lr show ?thesis by blast
qed

text \<open>
  A loader given header, defaults and flags (without \<open>copy\<close>) reads nothing at
  construction: it is \<open>loader_of\<close> over the whole content.
\<close>

lemma SparseLoader_init_supplied:
  assumes "length (w_header w) = length (w_defaults w)"
    "length (w_numbers w) = length (w_defaults w)"
  shows "SparseLoader_init L content (Some (w_header w)) (Some (w_defaults w))
           (Some (w_numbers w)) False = Inr (loader_of w content)"
  using assms by (simp add: SparseLoader_init_def u_get_header_def loader_of_def)

lemma get_empty_row_writer:
  assumes "length (w_header w) = length (w_defaults w)"
    "length (w_numbers w) = length (w_defaults w)"
  shows "get_empty_row L w = Inr (writer_row w)"
  using assms by (simp add: get_empty_row_def SparseRow_init_no_copy writer_row_def)

lemma write_dense_row_line:
  assumes "get_empty_row L w = Inr r0" "fst (from_dense L r0 vs) = Inr ()"
    "\<not> f_closed (w_file w)"
  shows "write_dense_row L w vs
           = Inr (w\<lparr>w_file := csv_writerow (w_file w) (dense_line L r0 vs)\<rparr>)"
  using assms
  by (cases "from_dense L r0 vs")
    (simp add: write_dense_row_def write_sparse_row_def dense_line_def)

lemma write_dense_rows_lines:
  assumes "get_empty_row L w = Inr r0" "\<not> f_closed (w_file w)"
    and "\<And>vs. vs \<in> set rows \<Longrightarrow> fst (from_dense L r0 vs) = Inr ()"
  shows "write_dense_rows L w rows
           = Inr (w\<lparr>w_file := (w_file w)\<lparr>f_lines := f_lines (w_file w)
                                           @ map (dense_line L r0) rows\<rparr>\<rparr>)"
  using assms
proof (induction rows arbitrary: w)
  case Nil
  then show ?case by simp
next
  case (Cons vs rows)
  let ?w1 = "w\<lparr>w_file := csv_writerow (w_file w) (dense_line L r0 vs)\<rparr>"
  have one: "write_dense_row L w vs = Inr ?w1"
    using Cons.prems by (intro write_dense_row_line) simp_all
  have e1: "get_empty_row L ?w1 = Inr r0"
    using Cons.prems(1) by (simp add: get_empty_row_def)
  have c1: "\<not> f_closed (w_file ?w1)"
    using Cons.prems(2) by (simp add: csv_writerow_def)
  from Cons.IH [OF e1 c1] Cons.prems(3) one show ?case
    by (simp add: csv_writerow_def)
qed

section \<open>What the reader makes of the written fields\<close>

lemma universal_newlines_id: "CHR 0x0D \<notin> set s \<Longrightarrow> universal_newlines s = s"
  by (induction s rule: universal_newlines.induct) auto

lemma transport_safe_line:
  assumes "list_all transport_safe line"
  shows "within_field_limit line" and "map universal_newlines line = line"
proof -
  from assms have *: "universal_newlines s = s \<and> length s \<le> field_limit"
    if "s \<in> set line" for s
    using that by (simp add: list_all_iff transport_safe_def universal_newlines_id)
  then show "within_field_limit line"
    by (simp add: within_field_limit_def list_all_iff)
  from * show "map universal_newlines line = line"
    by (simp add: map_idI)
qed

lemma csv_next_safe:
  assumes "f_lines f = line # rest" "list_all transport_safe line"
  shows "csv_next f = (Inr line, f\<lparr>f_lines := rest\<rparr>)"
  using assms transport_safe_line [OF assms(2)] by (simp add: csv_next_def)

text \<open>
  A carriage return inside a field does not pass: the field of \<open>a\<close>, a carriage
  return and \<open>b\<close>, written quoted, is read with a line feed in its place. A field over
  the limit makes the reader raise.
\<close>

lemma carriage_return_read_as_line_feed:
  "csv_next (BaseFile_init_read [[[CHR ''a'', CHR 0x0D, CHR ''b'']]])
     = (Inr [[CHR ''a'', CHR 0x0A, CHR ''b'']], BaseFile_init_read [])"
  by (simp add: csv_next_def BaseFile_init_read_def within_field_limit_def field_limit_def)

lemma field_over_limit_raises:
  "csv_next (BaseFile_init_read [[replicate (Suc field_limit) (CHR ''x'')]])
     = (Inl CsvError, BaseFile_init_read [])"
  by (simp add: csv_next_def BaseFile_init_read_def within_field_limit_def
      universal_newlines_id)

section \<open>The round trip\<close>

lemma load_rows_Nil:
  assumes "f_lines (l_file l) = []" "\<not> f_closed (l_file l)"
  shows "load_rows L l = Inr []"
proof -
  have "SparseLoader_next L l = (Inl StopIteration, l)"
    using assms by (simp add: SparseLoader_next_def csv_next_def)
  then show ?thesis
    by (subst load_rows.simps) simp
qed

lemma load_rows_Cons:
  assumes "f_lines (l_file l) = line # rest" "\<not> f_closed (l_file l)"
    and "list_all transport_safe line"
    and "SparseRow_init L (Some (l_header l)) (l_defaults l) (Some (l_numbers l))
           (map split_entry line) False = Inr r"
  shows "load_rows L l
           = ebind (load_rows L (l\<lparr>l_file := (l_file l)\<lparr>f_lines := rest\<rparr>\<rparr>))
               (\<lambda>rs. Inr (r # rs))"
proof -
  have "SparseLoader_next L l = (Inr r, l\<lparr>l_file := (l_file l)\<lparr>f_lines := rest\<rparr>\<rparr>)"
    using assms(2,4) csv_next_safe [OF assms(1,3)] by (simp add: SparseLoader_next_def)
  then show ?thesis
    by (subst load_rows.simps) simp
qed

lemma load_rows_lines:
  assumes "f_lines (l_file l) = map (dense_line L r0) rows" "\<not> f_closed (l_file l)"
    and "\<And>vs. vs \<in> set rows \<Longrightarrow> list_all transport_safe (dense_line L r0 vs)"
    and "\<And>vs. vs \<in> set rows \<Longrightarrow>
           \<exists>r. SparseRow_init L (Some (l_header l)) (l_defaults l) (Some (l_numbers l))
                   (map split_entry (dense_line L r0 vs)) False = Inr r
               \<and> P r vs"
  shows "\<exists>rs. load_rows L l = Inr rs \<and> list_all2 P rs rows"
  using assms
proof (induction rows arbitrary: l)
  case Nil
  then show ?case by (simp add: load_rows_Nil)
next
  case (Cons vs rows)
  from Cons.prems(4) [of vs] obtain r
    where r: "SparseRow_init L (Some (l_header l)) (l_defaults l) (Some (l_numbers l))
                      (map split_entry (dense_line L r0 vs)) False = Inr r"
      and out: "P r vs"
    by auto
  have safe: "list_all transport_safe (dense_line L r0 vs)"
    using Cons.prems(3) [of vs] by simp
  let ?l1 = "l\<lparr>l_file := (l_file l)\<lparr>f_lines := map (dense_line L r0) rows\<rparr>\<rparr>"
  have step: "load_rows L l = ebind (load_rows L ?l1) (\<lambda>rs. Inr (r # rs))"
    using Cons.prems(1,2) safe r by (intro load_rows_Cons) simp_all
  have "\<exists>rs. load_rows L ?l1 = Inr rs \<and> list_all2 P rs rows"
    using Cons.prems(2,3,4) by (intro Cons.IH) simp_all
  then obtain rs where "load_rows L ?l1 = Inr rs" "list_all2 P rs rows"
    by blast
  with step out show ?case by auto
qed

text \<open>
  Claim C1, as the code has it. Take a writer over a typed schema with at least one
  column, and dense rows of the schema's length that are text-stable and whose written
  fields pass the reader (no carriage return, within the field limit). Then
  \<open>write_dense_row\<close> accepts every row and appends one line per row; a loader over the
  same schema that reads these lines yields as many rows, in the same order. Each of
  them iterates to values that reproduce the original dense row (equal by \<open>==\<close> or both
  NaN in numeric columns, the same text in the other columns), and more precisely: a
  cell that is default-equal to its column's default comes back as that default; any
  other cell comes back bit for bit, a NaN of a numeric column as a NaN.
\<close>

theorem dense_rows_round_trip:
  assumes ty: "typed_schema (writer_row w)"
    and hl: "length (w_header w) = length (w_defaults w)"
    and ne: "w_defaults w \<noteq> []" and op: "\<not> f_closed (w_file w)"
    and idx: "index_text_ok L (length (w_defaults w))"
    and rows: "list_all (\<lambda>vs. length vs = length (w_defaults w)
                              \<and> text_stable L (writer_row w) vs
                              \<and> list_all transport_safe (dense_line L (writer_row w) vs)) rows"
  shows "\<exists>w' content rs.
           write_dense_rows L w rows = Inr w'
           \<and> f_lines (w_file w') = f_lines (w_file w) @ content
           \<and> length content = length rows
           \<and> load_rows L (loader_of w content) = Inr rs
           \<and> list_all2 (\<lambda>r vs. \<exists>out. row_iter r = Inr out
                                  \<and> reproduces L (w_numbers w) out vs
                                  \<and> loaded_row L (writer_row w) out vs) rs rows"
proof -
  let ?r0 = "writer_row w"
  let ?content = "map (dense_line L ?r0) rows"
  let ?P = "\<lambda>r vs. \<exists>out. row_iter r = Inr out \<and> reproduces L (w_numbers w) out vs
                        \<and> loaded_row L ?r0 out vs"
  have nlen: "length (w_numbers w) = length (w_defaults w)"
    using ty by (simp add: typed_schema_def writer_row_def list_all2_lengthD)
  have e: "get_empty_row L w = Inr ?r0"
    using hl nlen by (rule get_empty_row_writer)
  have each: "fst (from_dense L ?r0 vs) = Inr ()
       \<and> (\<exists>r'' out.
            SparseRow_init L (Some (r_header ?r0)) (r_defaults ?r0) (Some (r_numbers ?r0))
              (map split_entry
                 (map (\<lambda>p. str_of_int L (fst p) @ '':'' @ py_str L (snd p))
                    (get_values (snd (from_dense L ?r0 vs))))) False = Inr r''
            \<and> row_iter r'' = Inr out \<and> reproduces L (r_numbers ?r0) out vs
            \<and> loaded_row L ?r0 out vs)"
    if "vs \<in> set rows" for vs
  proof (rule row_round_trip [OF ty])
    show "length (r_header ?r0) = length (r_defaults ?r0)"
      using hl by (simp add: writer_row_def)
    show "r_defaults ?r0 \<noteq> []" using ne by (simp add: writer_row_def)
    show "r_values ?r0 = []" by (simp add: writer_row_def)
    show "index_text_ok L (length (r_defaults ?r0))"
      using idx by (simp add: writer_row_def)
    show "length vs = length (r_defaults ?r0)"
      using rows that by (simp add: list_all_iff writer_row_def)
    show "text_stable L ?r0 vs"
      using rows that by (simp add: list_all_iff)
  qed
  have wr: "write_dense_rows L w rows
      = Inr (w\<lparr>w_file := (w_file w)\<lparr>f_lines := f_lines (w_file w) @ ?content\<rparr>\<rparr>)"
    using e op each by (intro write_dense_rows_lines) simp_all
  have "\<exists>rs. load_rows L (loader_of w ?content) = Inr rs \<and> list_all2 ?P rs rows"
  proof (rule load_rows_lines [where ?r0.0 = ?r0])
    show "f_lines (l_file (loader_of w ?content)) = ?content"
      by (simp add: loader_of_def BaseFile_init_read_def)
    show "\<not> f_closed (l_file (loader_of w ?content))"
      by (simp add: loader_of_def BaseFile_init_read_def)
  next
    fix vs assume "vs \<in> set rows"
    with rows show "list_all transport_safe (dense_line L ?r0 vs)"
      by (simp add: list_all_iff)
  next
    fix vs assume "vs \<in> set rows"
    from each [OF this]
    show "\<exists>r. SparseRow_init L (Some (l_header (loader_of w ?content)))
              (l_defaults (loader_of w ?content)) (Some (l_numbers (loader_of w ?content)))
              (map split_entry (dense_line L ?r0 vs)) False = Inr r
            \<and> ?P r vs"
      by (simp add: loader_of_def writer_row_def dense_line_def)
  qed
  with wr show ?thesis by auto
qed

text \<open>
  Witness for C1: two dense rows written by the sample writer and loaded back, one with
  a non-default float, one with a NaN.
\<close>

theorem dense_rows_round_trip_witness:
  "typed_schema (writer_row sample_writer)
   \<and> length (w_header sample_writer) = length (w_defaults sample_writer)
   \<and> w_defaults sample_writer \<noteq> [] \<and> \<not> f_closed (w_file sample_writer)
   \<and> index_text_ok sample_lib (length (w_defaults sample_writer))
   \<and> list_all (\<lambda>vs. length vs = length (w_defaults sample_writer)
                     \<and> text_stable sample_lib (writer_row sample_writer) vs
                     \<and> list_all transport_safe
                          (dense_line sample_lib (writer_row sample_writer) vs))
        [[Str ''5.0'', Str ''x''], [Str ''nan'', Str ''y'']]
   \<and> (\<exists>w' content rs.
         write_dense_rows sample_lib sample_writer
           [[Str ''5.0'', Str ''x''], [Str ''nan'', Str ''y'']] = Inr w'
         \<and> f_lines (w_file w') = f_lines (w_file sample_writer) @ content
         \<and> length content = length [[Str ''5.0'', Str ''x''], [Str ''nan'', Str ''y'']]
         \<and> load_rows sample_lib (loader_of sample_writer content) = Inr rs
         \<and> list_all2 (\<lambda>r vs. \<exists>out. row_iter r = Inr out
                                \<and> reproduces sample_lib (w_numbers sample_writer) out vs
                                \<and> loaded_row sample_lib (writer_row sample_writer) out vs)
              rs [[Str ''5.0'', Str ''x''], [Str ''nan'', Str ''y'']])"
proof -
  have h: "typed_schema (writer_row sample_writer)"
    "length (w_header sample_writer) = length (w_defaults sample_writer)"
    "w_defaults sample_writer \<noteq> []" "\<not> f_closed (w_file sample_writer)"
    by (simp_all add: typed_schema_def writer_row_def sample_writer_def)
  have i: "index_text_ok sample_lib (length (w_defaults sample_writer))"
    by (simp add: index_text_ok_def sample_writer_def sample_lib_def upt_rec)
  have l1: "dense_line sample_lib (writer_row sample_writer) [Str ''5.0'', Str ''x'']
      = [''0:5.0'']"
    by (simp add: dense_line_def get_values_def from_dense_def u_convert_def u_check_range_def
        py_nth_def writer_row_def sample_writer_def sample_lib_def float_eq_def isnan_def
        is_zero_def)
  have l2: "dense_line sample_lib (writer_row sample_writer) [Str ''nan'', Str ''y'']
      = [''0:nan'', ''1:y'']"
    by (simp add: dense_line_def get_values_def from_dense_def u_convert_def u_check_range_def
        py_nth_def writer_row_def sample_writer_def sample_lib_def float_eq_def isnan_def
        is_zero_def)
  have s: "list_all transport_safe [''0:5.0'']" "list_all transport_safe [''0:nan'', ''1:y'']"
    by (simp_all add: transport_safe_def field_limit_def)
  have t: "text_stable sample_lib (writer_row sample_writer) [Str ''5.0'', Str ''x'']"
    "text_stable sample_lib (writer_row sample_writer) [Str ''nan'', Str ''y'']"
    by (simp_all add: text_stable_def float_text_exact_def writer_row_def sample_writer_def
        sample_lib_def isnan_def)
  have r: "list_all (\<lambda>vs. length vs = length (w_defaults sample_writer)
                     \<and> text_stable sample_lib (writer_row sample_writer) vs
                     \<and> list_all transport_safe
                          (dense_line sample_lib (writer_row sample_writer) vs))
        [[Str ''5.0'', Str ''x''], [Str ''nan'', Str ''y'']]"
    using s t unfolding l1 [symmetric] l2 [symmetric]
    by (simp add: sample_writer_def)
  from dense_rows_round_trip [OF h i r] h i r show ?thesis
    by simp
qed

text \<open>
  Counterexample to C1 as stated: the dense row \<open>[-0.0, "x"]\<close> over the defaults
  \<open>[0.0, "x"]\<close> is written as an empty line, because \<open>-0.0 == 0.0\<close>, and the row
  loaded from that line iterates to \<open>[0.0, "x"]\<close>: equal by \<open>==\<close>, not bit for bit.
\<close>

theorem round_trip_not_bit_for_bit:
  "write_dense_rows sample_lib sample_writer [[Num 0x8000000000000000, Str ''x'']]
     = Inr (sample_writer\<lparr>w_file :=
              \<lparr>f_lines = [[''a'', ''b''], [''0.0'', ''x''], []], f_closed = False\<rparr>\<rparr>)
   \<and> load_rows sample_lib (loader_of sample_writer [[]]) = Inr [writer_row sample_writer]
   \<and> row_iter (writer_row sample_writer) = Inr [Num 0, Str ''x'']
   \<and> Num 0 \<noteq> Num 0x8000000000000000"
proof -
  have w: "write_dense_rows sample_lib sample_writer [[Num 0x8000000000000000, Str ''x'']]
     = Inr (sample_writer\<lparr>w_file :=
              \<lparr>f_lines = [[''a'', ''b''], [''0.0'', ''x''], []], f_closed = False\<rparr>\<rparr>)"
    by (simp add: write_dense_row_def get_empty_row_def SparseRow_init_def u_get_header_def
        from_dense_def u_convert_def u_check_range_def py_nth_def write_sparse_row_def
        get_values_def csv_writerow_def sample_writer_def float_eq_def isnan_def is_zero_def)
  have "load_rows sample_lib (loader_of sample_writer [[]])
      = ebind (load_rows sample_lib
                 ((loader_of sample_writer [[]])
                    \<lparr>l_file := (l_file (loader_of sample_writer [[]]))\<lparr>f_lines := []\<rparr>\<rparr>))
          (\<lambda>rs. Inr (writer_row sample_writer # rs))"
    by (rule load_rows_Cons [where line = "[]" and rest = "[]"])
      (simp_all add: loader_of_def BaseFile_init_read_def SparseRow_init_def u_get_header_def
        writer_row_def sample_writer_def)
  moreover have "load_rows sample_lib
                 ((loader_of sample_writer [[]])
                    \<lparr>l_file := (l_file (loader_of sample_writer [[]]))\<lparr>f_lines := []\<rparr>\<rparr>)
      = Inr []"
    by (rule load_rows_Nil) (simp_all add: loader_of_def BaseFile_init_read_def)
  ultimately have l: "load_rows sample_lib (loader_of sample_writer [[]])
      = Inr [writer_row sample_writer]"
    by simp
  have it: "row_iter (writer_row sample_writer) = Inr [Num 0, Str ''x'']"
    by (simp add: row_iter_def u_get_def py_nth_def writer_row_def sample_writer_def upt_rec)
  from w l it show ?thesis by simp
qed

end
